theory Spec2Isabelle
  imports Main "HOL-Library.Sublist" "HOL-Library.Char_ord"
begin

section \<open>Strings and characters\<close>

text \<open>
  The classifier and the extractor of \<^verbatim>\<open>src/app/server.py\<close> are functions of a Python
  \<^verbatim>\<open>str\<close>.  A text is modelled as a \<^typ>\<open>string\<close>: a list of characters, one per code
  point, for the code points below 256 (the Latin-1 block of Unicode, which holds ASCII).
  The character classes are those of Python's \<^verbatim>\<open>re\<close> on \<^verbatim>\<open>str\<close> patterns, cut to that range.
\<close>

definition is_digit :: "char \<Rightarrow> bool" where
  \<comment> \<open>\<^verbatim>\<open>\d\<close>: the decimal digits\<close>
  "is_digit c = (CHR ''0'' \<le> c \<and> c \<le> CHR ''9'')"

definition is_alpha :: "char \<Rightarrow> bool" where
  \<comment> \<open>\<^verbatim>\<open>str.isalpha\<close>: the letters\<close>
  "is_alpha c =
     ((CHR ''a'' \<le> c \<and> c \<le> CHR ''z'') \<or> (CHR ''A'' \<le> c \<and> c \<le> CHR ''Z'') \<or>
      c = CHR 0xAA \<or> c = CHR 0xB5 \<or> c = CHR 0xBA \<or>
      (CHR 0xC0 \<le> c \<and> c \<le> CHR 0xD6) \<or> (CHR 0xD8 \<le> c \<and> c \<le> CHR 0xF6) \<or> CHR 0xF8 \<le> c)"

definition is_numeric :: "char \<Rightarrow> bool" where
  \<comment> \<open>\<^verbatim>\<open>str.isnumeric\<close>: digits, superscript digits and vulgar fractions\<close>
  "is_numeric c =
     (is_digit c \<or> c = CHR 0xB2 \<or> c = CHR 0xB3 \<or> c = CHR 0xB9 \<or>
      (CHR 0xBC \<le> c \<and> c \<le> CHR 0xBE))"

definition is_word :: "char \<Rightarrow> bool" where
  \<comment> \<open>\<^verbatim>\<open>\w\<close>: alphanumeric or underscore\<close>
  "is_word c = (is_alpha c \<or> is_numeric c \<or> c = CHR ''_'')"

definition is_space :: "char \<Rightarrow> bool" where
  \<comment> \<open>\<^verbatim>\<open>\s\<close> and \<^verbatim>\<open>str.isspace\<close>\<close>
  "is_space c =
     (c = CHR '' '' \<or> (CHR 0x09 \<le> c \<and> c \<le> CHR 0x0D) \<or> (CHR 0x1C \<le> c \<and> c \<le> CHR 0x1F) \<or>
      c = CHR 0x85 \<or> c = CHR 0xA0)"

definition to_lower :: "char \<Rightarrow> char" where
  \<comment> \<open>lower case of an ASCII letter; every pattern of the tables is ASCII\<close>
  "to_lower c =
     (case map_of (zip ''ABCDEFGHIJKLMNOPQRSTUVWXYZ'' ''abcdefghijklmnopqrstuvwxyz'') c of
        Some l \<Rightarrow> l
      | None \<Rightarrow> c)"

definition char_eq :: "bool \<Rightarrow> char \<Rightarrow> char \<Rightarrow> bool" where
  \<comment> \<open>a pattern character \<open>p\<close> against a text character \<open>c\<close>, under \<^verbatim>\<open>re.IGNORECASE\<close> or not\<close>
  "char_eq icase p c = (p = c \<or> (icase \<and> to_lower p = to_lower c))"

fun contains :: "string \<Rightarrow> string \<Rightarrow> bool" where
  \<comment> \<open>\<^verbatim>\<open>needle in s\<close>\<close>
  "contains needle [] = (needle = [])"
| "contains needle (c # cs) = (prefix needle (c # cs) \<or> contains needle cs)"

fun split_on :: "char \<Rightarrow> string \<Rightarrow> string list" where
  \<comment> \<open>\<^verbatim>\<open>s.split(sep)\<close> for a one-character separator\<close>
  "split_on sep [] = [[]]"
| "split_on sep (c # cs) =
     (if c = sep then [] # split_on sep cs
      else (case split_on sep cs of l # ls \<Rightarrow> (c # l) # ls | [] \<Rightarrow> [[c]]))"

definition rstrip_chars :: "string \<Rightarrow> string \<Rightarrow> string" where
  \<comment> \<open>\<^verbatim>\<open>s.rstrip(chars)\<close>\<close>
  "rstrip_chars chars s = rev (dropWhile (\<lambda>c. c \<in> set chars) (rev s))"

definition strip_chars :: "string \<Rightarrow> string \<Rightarrow> string" where
  \<comment> \<open>\<^verbatim>\<open>s.strip(chars)\<close>\<close>
  "strip_chars chars s = rstrip_chars chars (dropWhile (\<lambda>c. c \<in> set chars) s)"

definition strip_ws :: "string \<Rightarrow> string" where
  \<comment> \<open>\<^verbatim>\<open>s.strip()\<close>\<close>
  "strip_ws s = rev (dropWhile is_space (rev (dropWhile is_space s)))"

function replace_del :: "string \<Rightarrow> string \<Rightarrow> string" where
  \<comment> \<open>\<^verbatim>\<open>s.replace(needle, "")\<close>: one pass, left to right, over the occurrences that do not overlap\<close>
  "replace_del needle [] = []"
| "replace_del needle (c # cs) =
     (if needle \<noteq> [] \<and> prefix needle (c # cs)
      then replace_del needle (drop (length needle) (c # cs))
      else c # replace_del needle cs)"
  by pat_completeness auto
termination
  by (relation "measure (\<lambda>(n, s). length s)") auto

section \<open>Regular expressions\<close>

text \<open>
  The part of Python's \<^verbatim>\<open>re\<close> the tables use.  Every repetition of the source
  (\<^verbatim>\<open>*\<close>, \<^verbatim>\<open>+\<close>, \<^verbatim>\<open>?\<close>, \<^verbatim>\<open>{2,}\<close>) is greedy and stands on a single character or class,
  but for one optional non-capturing group; no pattern has more than one capturing group.
\<close>

datatype citem = CChar char | CWord
  \<comment> \<open>a member of a bracketed class: a character or \<^verbatim>\<open>\w\<close>\<close>

datatype atom =
    AChar char              \<comment> \<open>a literal character\<close>
  | AAny                    \<comment> \<open>\<^verbatim>\<open>.\<close>: any character but a newline\<close>
  | AWord                   \<comment> \<open>\<^verbatim>\<open>\w\<close>\<close>
  | ADigit                  \<comment> \<open>\<^verbatim>\<open>\d\<close>\<close>
  | ASpace                  \<comment> \<open>\<^verbatim>\<open>\s\<close>\<close>
  | ASet "citem list"       \<comment> \<open>\<^verbatim>\<open>[...]\<close>\<close>
  | ANot "citem list"       \<comment> \<open>\<^verbatim>\<open>[^...]\<close>\<close>

datatype regex =
    Eps                             \<comment> \<open>the empty pattern\<close>
  | Lit string                      \<comment> \<open>a run of literal characters\<close>
  | Atom atom                       \<comment> \<open>one character\<close>
  | Rep nat "nat option" atom       \<comment> \<open>greedy \<^verbatim>\<open>{lo,hi}\<close> on a single character\<close>
  | WordB                           \<comment> \<open>\<^verbatim>\<open>\b\<close>\<close>
  | EndS                            \<comment> \<open>\<^verbatim>\<open>$\<close>\<close>
  | Seq regex regex                 \<comment> \<open>concatenation\<close>
  | Alt regex regex                 \<comment> \<open>\<^verbatim>\<open>r1|r2\<close>, the left branch first\<close>
  | Opt regex                       \<comment> \<open>greedy \<^verbatim>\<open>(?:r)?\<close>\<close>
  | Group regex                     \<comment> \<open>the capturing group\<close>

text \<open>A position of the matcher in the text, with what group 1 has captured so far.\<close>

datatype mstate = MState
  (ms_pos: nat)                \<comment> \<open>index of the next character\<close>
  (ms_prev: "char option")      \<comment> \<open>the character before it\<close>
  (ms_rest: string)            \<comment> \<open>the text from it on\<close>
  (ms_g1: "string option")      \<comment> \<open>group 1\<close>

text \<open>A match object: \<^verbatim>\<open>start()\<close>, \<^verbatim>\<open>end()\<close>, \<^verbatim>\<open>group(0)\<close> and \<^verbatim>\<open>group(1)\<close>
  (\<open>None\<close> when the group took no part, which is when \<^verbatim>\<open>lastindex\<close> is \<^verbatim>\<open>None\<close>).\<close>

record rmatch =
  m_start :: nat
  m_end :: nat
  m_group0 :: string
  m_group1 :: "string option"

fun citem_ok :: "bool \<Rightarrow> citem \<Rightarrow> char \<Rightarrow> bool" where
  "citem_ok icase (CChar p) c = char_eq icase p c"
| "citem_ok icase CWord c = is_word c"

fun atom_ok :: "bool \<Rightarrow> atom \<Rightarrow> char \<Rightarrow> bool" where
  "atom_ok icase (AChar p) c = char_eq icase p c"
| "atom_ok icase AAny c = (c \<noteq> CHR 0x0A)"
| "atom_ok icase AWord c = is_word c"
| "atom_ok icase ADigit c = is_digit c"
| "atom_ok icase ASpace c = is_space c"
| "atom_ok icase (ASet items) c = list_ex (\<lambda>i. citem_ok icase i c) items"
| "atom_ok icase (ANot items) c = (\<not> list_ex (\<lambda>i. citem_ok icase i c) items)"

fun advance :: "nat \<Rightarrow> mstate \<Rightarrow> mstate" where
  \<comment> \<open>step over \<open>n\<close> characters\<close>
  "advance 0 st = st"
| "advance (Suc n) st =
     (case ms_rest st of
        [] \<Rightarrow> st
      | c # cs \<Rightarrow> advance n (MState (Suc (ms_pos st)) (Some c) cs (ms_g1 st)))"

fun lit_ok :: "bool \<Rightarrow> string \<Rightarrow> string \<Rightarrow> bool" where
  \<comment> \<open>the literal is a prefix of the text\<close>
  "lit_ok icase [] s = True"
| "lit_ok icase (p # ps) [] = False"
| "lit_ok icase (p # ps) (c # cs) = (char_eq icase p c \<and> lit_ok icase ps cs)"

fun run_len :: "bool \<Rightarrow> atom \<Rightarrow> nat option \<Rightarrow> string \<Rightarrow> nat" where
  \<comment> \<open>how many characters a greedy repetition takes at first: all that match, up to \<open>hi\<close>\<close>
  "run_len icase a hi [] = 0"
| "run_len icase a hi (c # cs) =
     (if hi = Some 0 \<or> \<not> atom_ok icase a c then 0
      else Suc (run_len icase a (map_option (\<lambda>h. h - 1) hi) cs))"

definition at_boundary :: "mstate \<Rightarrow> bool" where
  \<comment> \<open>\<^verbatim>\<open>\b\<close>: a word character on exactly one side\<close>
  "at_boundary st =
     ((case ms_prev st of None \<Rightarrow> False | Some p \<Rightarrow> is_word p) \<noteq>
      (case ms_rest st of [] \<Rightarrow> False | c # _ \<Rightarrow> is_word c))"

text \<open>
  \<open>ends icase r st\<close> lists the positions where a match of \<open>r\<close> that starts at \<open>st\<close> can
  end, in the order in which Python's backtracking matcher tries them: the head of the list
  is the match Python returns.
\<close>

fun ends :: "bool \<Rightarrow> regex \<Rightarrow> mstate \<Rightarrow> mstate list" where
  "ends icase Eps st = [st]"
| "ends icase (Lit ps) st =
     (if lit_ok icase ps (ms_rest st) then [advance (length ps) st] else [])"
| "ends icase (Atom a) st =
     (case ms_rest st of
        [] \<Rightarrow> []
      | c # cs \<Rightarrow> if atom_ok icase a c then [advance 1 st] else [])"
| "ends icase (Rep lo hi a) st =
     map (\<lambda>k. advance k st) (rev [lo ..< Suc (run_len icase a hi (ms_rest st))])"
| "ends icase WordB st = (if at_boundary st then [st] else [])"
| "ends icase EndS st =
     (if ms_rest st = [] \<or> ms_rest st = [CHR 0x0A] then [st] else [])"
| "ends icase (Seq r1 r2) st = concat (map (ends icase r2) (ends icase r1 st))"
| "ends icase (Alt r1 r2) st = ends icase r1 st @ ends icase r2 st"
| "ends icase (Opt r) st = ends icase r st @ [st]"
| "ends icase (Group r) st =
     map (\<lambda>st'. MState (ms_pos st') (ms_prev st') (ms_rest st')
                   (Some (take (ms_pos st' - ms_pos st) (ms_rest st))))
       (ends icase r st)"

text \<open>A compiled pattern: the expression and its \<^verbatim>\<open>re.IGNORECASE\<close> flag.\<close>

record pattern =
  p_regex :: regex
  p_icase :: bool

definition match_at :: "pattern \<Rightarrow> nat \<Rightarrow> char option \<Rightarrow> string \<Rightarrow> rmatch option" where
  \<comment> \<open>the match that starts at this position, if there is one\<close>
  "match_at p pos prev rest =
     (case ends (p_icase p) (p_regex p) (MState pos prev rest None) of
        [] \<Rightarrow> None
      | st' # _ \<Rightarrow>
          Some \<lparr>m_start = pos, m_end = ms_pos st',
                m_group0 = take (ms_pos st' - pos) rest, m_group1 = ms_g1 st'\<rparr>)"

fun search_at :: "pattern \<Rightarrow> nat \<Rightarrow> char option \<Rightarrow> string \<Rightarrow> rmatch option" where
  "search_at p pos prev rest =
     (case match_at p pos prev rest of
        Some m \<Rightarrow> Some m
      | None \<Rightarrow>
          (case rest of
             [] \<Rightarrow> None
           | c # cs \<Rightarrow> search_at p (Suc pos) (Some c) cs))"

definition re_search :: "pattern \<Rightarrow> string \<Rightarrow> rmatch option" where
  \<comment> \<open>\<^verbatim>\<open>pattern.search(text)\<close>: the leftmost match\<close>
  "re_search p text = search_at p 0 None text"

text \<open>
  \<^verbatim>\<open>pattern.finditer(text)\<close>: the matches that do not overlap, left to right.  \<open>skip\<close>
  counts the characters of the last match still to step over.  No pattern that the source
  iterates can match the empty string; here an empty match is followed by a step of one
  character.
\<close>

fun finditer_at :: "pattern \<Rightarrow> nat \<Rightarrow> nat \<Rightarrow> char option \<Rightarrow> string \<Rightarrow> rmatch list" where
  "finditer_at p skip pos prev rest =
     (if 0 < skip then
        (case rest of
           [] \<Rightarrow> []
         | c # cs \<Rightarrow> finditer_at p (skip - 1) (Suc pos) (Some c) cs)
      else
        (case match_at p pos prev rest of
           None \<Rightarrow>
             (case rest of
                [] \<Rightarrow> []
              | c # cs \<Rightarrow> finditer_at p 0 (Suc pos) (Some c) cs)
         | Some m \<Rightarrow>
             m # (case rest of
                    [] \<Rightarrow> []
                  | c # cs \<Rightarrow> finditer_at p (m_end m - pos - 1) (Suc pos) (Some c) cs)))"

declare search_at.simps [simp del] finditer_at.simps [simp del]

definition finditer :: "pattern \<Rightarrow> string \<Rightarrow> rmatch list" where
  "finditer p text = finditer_at p 0 0 None text"

fun splice :: "(rmatch \<Rightarrow> string) \<Rightarrow> nat \<Rightarrow> string \<Rightarrow> rmatch list \<Rightarrow> string" where
  \<comment> \<open>the text from index \<open>pos\<close> on, each match replaced\<close>
  "splice repl pos s [] = s"
| "splice repl pos s (m # ms) =
     take (m_start m - pos) s @ repl m @ splice repl (m_end m) (drop (m_end m - pos) s) ms"

definition re_sub :: "pattern \<Rightarrow> (rmatch \<Rightarrow> string) \<Rightarrow> string \<Rightarrow> string" where
  \<comment> \<open>\<^verbatim>\<open>re.sub(pattern, repl, text)\<close>\<close>
  "re_sub p repl text = splice repl 0 text (finditer p text)"

section \<open>Building patterns\<close>

definition seq :: "regex list \<Rightarrow> regex" where
  \<comment> \<open>the concatenation of the parts, in order\<close>
  "seq rs = foldr Seq rs Eps"

definition ws :: regex where
  \<comment> \<open>\<^verbatim>\<open>\s*\<close>\<close>
  "ws = Rep 0 None ASpace"

definition icase_pattern :: "regex \<Rightarrow> pattern" where
  \<comment> \<open>\<^verbatim>\<open>re.compile(p, re.IGNORECASE)\<close>\<close>
  "icase_pattern r = \<lparr>p_regex = r, p_icase = True\<rparr>"

definition plain_pattern :: "regex \<Rightarrow> pattern" where
  \<comment> \<open>\<^verbatim>\<open>re.compile(p)\<close>\<close>
  "plain_pattern r = \<lparr>p_regex = r, p_icase = False\<rparr>"

section \<open>The product-area classifier\<close>

record area_rule =
  rule_key :: string
  rule_label :: string
  rule_group :: "string option"
  rule_patterns :: "pattern list"

text \<open>
  \<^verbatim>\<open>PRODUCT_AREA_RULES\<close>, with its patterns compiled as \<^verbatim>\<open>_COMPILED_AREA_RULES\<close> compiles them
  (every one with \<^verbatim>\<open>re.IGNORECASE\<close>).  Order matters: the first match wins.
\<close>

definition SIEM_RULE :: area_rule where
  \<open>SIEM_RULE = \<lparr>rule_key = ''siem'', rule_label = ''Cloud SIEM'',
     rule_group = Some ''threat_management'', rule_patterns = map icase_pattern [
       \<comment> \<open>\<^verbatim>\<open>\bcloud\s*siem\b\<close>\<close>
       seq [WordB, Lit ''cloud'', ws, Lit ''siem'', WordB],
       \<comment> \<open>\<^verbatim>\<open>\bsiem\b\<close>\<close>
       seq [WordB, Lit ''siem'', WordB],
       \<comment> \<open>\<^verbatim>\<open>\bdetection\s*rule\<close>\<close>
       seq [WordB, Lit ''detection'', ws, Lit ''rule''],
       \<comment> \<open>\<^verbatim>\<open>\bsecurity\s*signal\<close>\<close>
       seq [WordB, Lit ''security'', ws, Lit ''signal''],
       \<comment> \<open>\<^verbatim>\<open>\bcontent\s*pack\<close>\<close>
       seq [WordB, Lit ''content'', ws, Lit ''pack''],
       \<comment> \<open>\<^verbatim>\<open>\blog\s*detection\<close>\<close>
       seq [WordB, Lit ''log'', ws, Lit ''detection''],
       \<comment> \<open>\<^verbatim>\<open>\bthreat\s*intel\<close>\<close>
       seq [WordB, Lit ''threat'', ws, Lit ''intel'']]\<rparr>\<close>

definition AAP_RULE :: area_rule where
  \<open>AAP_RULE = \<lparr>rule_key = ''aap'', rule_label = ''AAP'',
     rule_group = Some ''threat_management'', rule_patterns = map icase_pattern [
       \<comment> \<open>\<^verbatim>\<open>\baap\b\<close>\<close>
       seq [WordB, Lit ''aap'', WordB],
       \<comment> \<open>\<^verbatim>\<open>\bappsec\b\<close>\<close>
       seq [WordB, Lit ''appsec'', WordB],
       \<comment> \<open>\<^verbatim>\<open>\basm\b\<close>\<close>
       seq [WordB, Lit ''asm'', WordB],
       \<comment> \<open>\<^verbatim>\<open>\bwaf\b\<close>\<close>
       seq [WordB, Lit ''waf'', WordB],
       \<comment> \<open>\<^verbatim>\<open>\bapi\s*security\b\<close>\<close>
       seq [WordB, Lit ''api'', ws, Lit ''security'', WordB],
       \<comment> \<open>\<^verbatim>\<open>\bin[- ]app\s*waf\b\<close>\<close>
       seq [WordB, Lit ''in'', Atom (ASet [CChar CHR ''-'', CChar CHR '' '']), Lit ''app'', ws,
            Lit ''waf'', WordB],
       \<comment> \<open>\<^verbatim>\<open>\bip\s*block\<close>\<close>
       seq [WordB, Lit ''ip'', ws, Lit ''block''],
       \<comment> \<open>\<^verbatim>\<open>\bpasslist\b\<close>\<close>
       seq [WordB, Lit ''passlist'', WordB],
       \<comment> \<open>\<^verbatim>\<open>\battack\s*attempt\<close>\<close>
       seq [WordB, Lit ''attack'', ws, Lit ''attempt''],
       \<comment> \<open>\<^verbatim>\<open>\bapplication[- ]security\b\<close>\<close>
       seq [WordB, Lit ''application'', Atom (ASet [CChar CHR ''-'', CChar CHR '' '']),
            Lit ''security'', WordB],
       \<comment> \<open>\<^verbatim>\<open>\bapp\s*(and|&)\s*api\s*protect\<close>\<close>
       seq [WordB, Lit ''app'', ws, Group (Alt (Lit ''and'') (Lit ''&'')), ws, Lit ''api'', ws,
            Lit ''protect''],
       \<comment> \<open>\<^verbatim>\<open>\bsecurity\s*trace\<close>\<close>
       seq [WordB, Lit ''security'', ws, Lit ''trace''],
       \<comment> \<open>\<^verbatim>\<open>\bphp.*(helper|sidecar)\b\<close>\<close>
       seq [WordB, Lit ''php'', Rep 0 None AAny, Group (Alt (Lit ''helper'') (Lit ''sidecar'')),
            WordB],
       \<comment> \<open>\<^verbatim>\<open>\b(sidecar|helper).*php\b\<close>\<close>
       seq [WordB, Group (Alt (Lit ''sidecar'') (Lit ''helper'')), Rep 0 None AAny, Lit ''php'',
            WordB],
       \<comment> \<open>\<^verbatim>\<open>\bdd_appsec_enabled\b\<close>\<close>
       seq [WordB, Lit ''dd_appsec_enabled'', WordB]]\<rparr>\<close>

definition WORKLOAD_PROTECTION_RULE :: area_rule where
  \<open>WORKLOAD_PROTECTION_RULE = \<lparr>rule_key = ''workload_protection'',
     rule_label = ''Workload Protection'',
     rule_group = Some ''threat_management'', rule_patterns = map icase_pattern [
       \<comment> \<open>\<^verbatim>\<open>\bworkload\s*protection\b\<close>\<close>
       seq [WordB, Lit ''workload'', ws, Lit ''protection'', WordB],
       \<comment> \<open>\<^verbatim>\<open>\bcws\b\<close>\<close>
       seq [WordB, Lit ''cws'', WordB],
       \<comment> \<open>\<^verbatim>\<open>\bcloud\s*workload\s*security\b\<close>\<close>
       seq [WordB, Lit ''cloud'', ws, Lit ''workload'', ws, Lit ''security'', WordB],
       \<comment> \<open>\<^verbatim>\<open>\bruntime\s*security\b\<close>\<close>
       seq [WordB, Lit ''runtime'', ws, Lit ''security'', WordB],
       \<comment> \<open>\<^verbatim>\<open>\bactive\s*protection\b\<close>\<close>
       seq [WordB, Lit ''active'', ws, Lit ''protection'', WordB],
       \<comment> \<open>\<^verbatim>\<open>\bsystem[- ]probe\b\<close>\<close>
       seq [WordB, Lit ''system'', Atom (ASet [CChar CHR ''-'', CChar CHR '' '']), Lit ''probe'',
            WordB],
       \<comment> \<open>\<^verbatim>\<open>\bsecurity[- ]agent\b\<close>\<close>
       seq [WordB, Lit ''security'', Atom (ASet [CChar CHR ''-'', CChar CHR '' '']), Lit ''agent'',
            WordB],
       \<comment> \<open>\<^verbatim>\<open>\bfim\b\<close>\<close>
       seq [WordB, Lit ''fim'', WordB],
       \<comment> \<open>\<^verbatim>\<open>\brunc\b\<close>\<close>
       seq [WordB, Lit ''runc'', WordB],
       \<comment> \<open>\<^verbatim>\<open>\bsbom\b\<close>\<close>
       seq [WordB, Lit ''sbom'', WordB],
       \<comment> \<open>\<^verbatim>\<open>\bagent\s*rule\b\<close>\<close>
       seq [WordB, Lit ''agent'', ws, Lit ''rule'', WordB],
       \<comment> \<open>\<^verbatim>\<open>\bdynamic\s*linker\b\<close>\<close>
       seq [WordB, Lit ''dynamic'', ws, Lit ''linker'', WordB],
       \<comment> \<open>\<^verbatim>\<open>\bebpf\b\<close>\<close>
       seq [WordB, Lit ''ebpf'', WordB]]\<rparr>\<close>

definition CSPM_RULE :: area_rule where
  \<open>CSPM_RULE = \<lparr>rule_key = ''cspm'', rule_label = ''CSPM'',
     rule_group = Some ''cloud_security'', rule_patterns = map icase_pattern [
       \<comment> \<open>\<^verbatim>\<open>\bcspm\b\<close>\<close>
       seq [WordB, Lit ''cspm'', WordB],
       \<comment> \<open>\<^verbatim>\<open>\bposture\s*management\b\<close>\<close>
       seq [WordB, Lit ''posture'', ws, Lit ''management'', WordB],
       \<comment> \<open>\<^verbatim>\<open>\bmisconfiguration\b\<close>\<close>
       seq [WordB, Lit ''misconfiguration'', WordB],
       \<comment> \<open>\<^verbatim>\<open>\bcompliance\b\<close>\<close>
       seq [WordB, Lit ''compliance'', WordB],
       \<comment> \<open>\<^verbatim>\<open>\bbenchmark\b\<close>\<close>
       seq [WordB, Lit ''benchmark'', WordB],
       \<comment> \<open>\<^verbatim>\<open>\bcloud\s*configuration\b\<close>\<close>
       seq [WordB, Lit ''cloud'', ws, Lit ''configuration'', WordB],
       \<comment> \<open>\<^verbatim>\<open>\bcloud\s*security.*config\<close>\<close>
       seq [WordB, Lit ''cloud'', ws, Lit ''security'', Rep 0 None AAny, Lit ''config''],
       \<comment> \<open>\<^verbatim>\<open>\bcis\b\<close>\<close>
       seq [WordB, Lit ''cis'', WordB],
       \<comment> \<open>\<^verbatim>\<open>\bstig\b\<close>\<close>
       seq [WordB, Lit ''stig'', WordB],
       \<comment> \<open>\<^verbatim>\<open>\bdisa\b\<close>\<close>
       seq [WordB, Lit ''disa'', WordB],
       \<comment> \<open>\<^verbatim>\<open>\biac\s*finding\<close>\<close>
       seq [WordB, Lit ''iac'', ws, Lit ''finding''],
       \<comment> \<open>\<^verbatim>\<open>\bfindings?\s*search\b\<close>\<close>
       seq [WordB, Lit ''finding'', Rep 0 (Some 1) (AChar CHR ''s''), ws, Lit ''search'', WordB]]\<rparr>\<close>

definition VM_RULE :: area_rule where
  \<open>VM_RULE = \<lparr>rule_key = ''vm'', rule_label = ''Vulnerability Mgmt'',
     rule_group = Some ''cloud_security'', rule_patterns = map icase_pattern [
       \<comment> \<open>\<^verbatim>\<open>\bvulnerability\s*management\b\<close>\<close>
       seq [WordB, Lit ''vulnerability'', ws, Lit ''management'', WordB],
       \<comment> \<open>\<^verbatim>\<open>\bvulnerab\<close>\<close>
       seq [WordB, Lit ''vulnerab''],
       \<comment> \<open>\<^verbatim>\<open>\bcve\b\<close>\<close>
       seq [WordB, Lit ''cve'', WordB],
       \<comment> \<open>\<^verbatim>\<open>\bagentless\s*scann\<close>\<close>
       seq [WordB, Lit ''agentless'', ws, Lit ''scann''],
       \<comment> \<open>\<^verbatim>\<open>\bhost\s*vulnerabilit\<close>\<close>
       seq [WordB, Lit ''host'', ws, Lit ''vulnerabilit''],
       \<comment> \<open>\<^verbatim>\<open>\bcontainer\s*image\s*vulnerabilit\<close>\<close>
       seq [WordB, Lit ''container'', ws, Lit ''image'', ws, Lit ''vulnerabilit''],
       \<comment> \<open>\<^verbatim>\<open>\bcvss\b\<close>\<close>
       seq [WordB, Lit ''cvss'', WordB],
       \<comment> \<open>\<^verbatim>\<open>\bepss\b\<close>\<close>
       seq [WordB, Lit ''epss'', WordB],
       \<comment> \<open>\<^verbatim>\<open>\bcisa\s*kev\b\<close>\<close>
       seq [WordB, Lit ''cisa'', ws, Lit ''kev'', WordB]]\<rparr>\<close>

definition CIEM_RULE :: area_rule where
  \<open>CIEM_RULE = \<lparr>rule_key = ''ciem'', rule_label = ''CIEM'',
     rule_group = Some ''cloud_security'', rule_patterns = map icase_pattern [
       \<comment> \<open>\<^verbatim>\<open>\bciem\b\<close>\<close>
       seq [WordB, Lit ''ciem'', WordB],
       \<comment> \<open>\<^verbatim>\<open>\bidentity\s*risk\<close>\<close>
       seq [WordB, Lit ''identity'', ws, Lit ''risk''],
       \<comment> \<open>\<^verbatim>\<open>\bentitlement\s*management\b\<close>\<close>
       seq [WordB, Lit ''entitlement'', ws, Lit ''management'', WordB],
       \<comment> \<open>\<^verbatim>\<open>\biam\s*access\s*analy\<close>\<close>
       seq [WordB, Lit ''iam'', ws, Lit ''access'', ws, Lit ''analy''],
       \<comment> \<open>\<^verbatim>\<open>\bprivilege\s*escalat\<close>\<close>
       seq [WordB, Lit ''privilege'', ws, Lit ''escalat''],
       \<comment> \<open>\<^verbatim>\<open>\bcross[- ]account\s*access\b\<close>\<close>
       seq [WordB, Lit ''cross'', Atom (ASet [CChar CHR ''-'', CChar CHR '' '']), Lit ''account'',
            ws, Lit ''access'', WordB],
       \<comment> \<open>\<^verbatim>\<open>\bblast\s*radius\b\<close>\<close>
       seq [WordB, Lit ''blast'', ws, Lit ''radius'', WordB],
       \<comment> \<open>\<^verbatim>\<open>\bidentity\s*risks?\b\<close>\<close>
       seq [WordB, Lit ''identity'', ws, Lit ''risk'', Rep 0 (Some 1) (AChar CHR ''s''), WordB]]\<rparr>\<close>

definition SAST_RULE :: area_rule where
  \<open>SAST_RULE = \<lparr>rule_key = ''sast'', rule_label = ''SAST'',
     rule_group = Some ''code_security'', rule_patterns = map icase_pattern [
       \<comment> \<open>\<^verbatim>\<open>\bsast\b\<close>\<close>
       seq [WordB, Lit ''sast'', WordB],
       \<comment> \<open>\<^verbatim>\<open>\bstatic\s*(application\s*security|analysis)\b\<close>\<close>
       seq [WordB, Lit ''static'', ws,
            Group (Alt (seq [Lit ''application'', ws, Lit ''security'']) (Lit ''analysis'')),
            WordB],
       \<comment> \<open>\<^verbatim>\<open>\bcode\s*security.*static\b\<close>\<close>
       seq [WordB, Lit ''code'', ws, Lit ''security'', Rep 0 None AAny, Lit ''static'', WordB],
       \<comment> \<open>\<^verbatim>\<open>\bstatic\s*code\b\<close>\<close>
       seq [WordB, Lit ''static'', ws, Lit ''code'', WordB],
       \<comment> \<open>\<^verbatim>\<open>\bhosted\s*scanning\b\<close>\<close>
       seq [WordB, Lit ''hosted'', ws, Lit ''scanning'', WordB]]\<rparr>\<close>

definition SCA_RULE :: area_rule where
  \<open>SCA_RULE = \<lparr>rule_key = ''sca'', rule_label = ''SCA'',
     rule_group = Some ''code_security'', rule_patterns = map icase_pattern [
       \<comment> \<open>\<^verbatim>\<open>\bsca\b\<close>\<close>
       seq [WordB, Lit ''sca'', WordB],
       \<comment> \<open>\<^verbatim>\<open>\bsoftware\s*composition\b\<close>\<close>
       seq [WordB, Lit ''software'', ws, Lit ''composition'', WordB],
       \<comment> \<open>\<^verbatim>\<open>\bdependenc\<close>\<close>
       seq [WordB, Lit ''dependenc''],
       \<comment> \<open>\<^verbatim>\<open>\brepo.*scanning\b\<close>\<close>
       seq [WordB, Lit ''repo'', Rep 0 None AAny, Lit ''scanning'', WordB],
       \<comment> \<open>\<^verbatim>\<open>\bdd_appsec_sca_enabled\b\<close>\<close>
       seq [WordB, Lit ''dd_appsec_sca_enabled'', WordB],
       \<comment> \<open>\<^verbatim>\<open>\blicense\s*risk\<close>\<close>
       seq [WordB, Lit ''license'', ws, Lit ''risk''],
       \<comment> \<open>\<^verbatim>\<open>\bpackage\s*manifest\<close>\<close>
       seq [WordB, Lit ''package'', ws, Lit ''manifest'']]\<rparr>\<close>

definition IAST_RULE :: area_rule where
  \<open>IAST_RULE = \<lparr>rule_key = ''iast'', rule_label = ''IAST'',
     rule_group = Some ''code_security'', rule_patterns = map icase_pattern [
       \<comment> \<open>\<^verbatim>\<open>\biast\b\<close>\<close>
       seq [WordB, Lit ''iast'', WordB],
       \<comment> \<open>\<^verbatim>\<open>\binteractive\s*application\s*security\b\<close>\<close>
       seq [WordB, Lit ''interactive'', ws, Lit ''application'', ws, Lit ''security'', WordB],
       \<comment> \<open>\<^verbatim>\<open>\bdd_iast_enabled\b\<close>\<close>
       seq [WordB, Lit ''dd_iast_enabled'', WordB],
       \<comment> \<open>\<^verbatim>\<open>\btainted\s*data\b\<close>\<close>
       seq [WordB, Lit ''tainted'', ws, Lit ''data'', WordB],
       \<comment> \<open>\<^verbatim>\<open>\bsource.*sink\b\<close>\<close>
       seq [WordB, Lit ''source'', Rep 0 None AAny, Lit ''sink'', WordB],
       \<comment> \<open>\<^verbatim>\<open>\bsink.*source\b\<close>\<close>
       seq [WordB, Lit ''sink'', Rep 0 None AAny, Lit ''source'', WordB]]\<rparr>\<close>

definition OTHER_RULE :: area_rule where
  \<comment> \<open>the fallback\<close>
  \<open>OTHER_RULE = \<lparr>rule_key = ''other'', rule_label = ''Other'', rule_group = None,
     rule_patterns = []\<rparr>\<close>

definition COMPILED_AREA_RULES :: "area_rule list" where
  "COMPILED_AREA_RULES =
     [SIEM_RULE, AAP_RULE, WORKLOAD_PROTECTION_RULE,
      CSPM_RULE, VM_RULE, CIEM_RULE,
      SAST_RULE, SCA_RULE, IAST_RULE,
      OTHER_RULE]"

definition ORG_DELETION :: pattern where
  \<comment> \<open>\<^verbatim>\<open>org\s*deletion\s*request\<close>, searched with \<^verbatim>\<open>re.IGNORECASE\<close>\<close>
  "ORG_DELETION = icase_pattern (seq [Lit ''org'', ws, Lit ''deletion'', ws, Lit ''request''])"

definition searches :: "pattern \<Rightarrow> string \<Rightarrow> bool" where
  \<comment> \<open>the truth value of \<^verbatim>\<open>pat.search(text)\<close>\<close>
  "searches p text = (re_search p text \<noteq> None)"

definition rule_matches :: "area_rule \<Rightarrow> string \<Rightarrow> bool" where
  \<comment> \<open>the inner loop of \<^verbatim>\<open>detect_product_area\<close>: some pattern of the rule is found\<close>
  "rule_matches r text = list_ex (\<lambda>p. searches p text) (rule_patterns r)"

fun detect_loop :: "area_rule list \<Rightarrow> string \<Rightarrow> string" where
  \<comment> \<open>the loop over the rules, with its early return\<close>
  "detect_loop [] text = ''other''"
| "detect_loop (r # rs) text =
     (if rule_patterns r = [] then detect_loop rs text
      else if rule_matches r text then rule_key r
      else detect_loop rs text)"

definition detect_product_area :: "string \<Rightarrow> string" where
  "detect_product_area text =
     (if searches ORG_DELETION text then ''other''
      else detect_loop COMPILED_AREA_RULES text)"

section \<open>The source-reference extractor\<close>

text \<open>One entry of a group's \<^verbatim>\<open>refs\<close>: the dict with keys \<^verbatim>\<open>url\<close>, \<^verbatim>\<open>display\<close>, \<^verbatim>\<open>context\<close>.\<close>

record source_ref =
  ref_url :: "string option"
  ref_display :: string
  ref_context :: string

text \<open>One entry of the result: the dict with keys \<^verbatim>\<open>key\<close>, \<^verbatim>\<open>label\<close>, \<^verbatim>\<open>icon\<close>, \<^verbatim>\<open>refs\<close>.\<close>

record source_group =
  grp_key :: string
  grp_label :: string
  grp_icon :: string
  grp_refs :: "source_ref list"

text \<open>A row of \<^verbatim>\<open>_SOURCE_TYPES\<close>: \<^verbatim>\<open>(key, label, icon, url_patterns, ref_patterns)\<close>.\<close>

record source_type =
  st_key :: string
  st_label :: string
  st_icon :: string
  st_url_patterns :: "pattern list"
  st_ref_patterns :: "pattern list"

text \<open>The one exception the extractor can raise.\<close>

datatype error = TypeError

definition url_chars :: "citem list" where
  \<comment> \<open>the class \<^verbatim>\<open>[\w/._?&#%-]\<close>\<close>
  "url_chars = [CWord, CChar CHR ''/'', CChar CHR ''.'', CChar CHR ''_'', CChar CHR ''?'',
                CChar CHR ''&'', CChar CHR ''#'', CChar CHR ''%'', CChar CHR ''-'']"

definition http :: regex where
  \<comment> \<open>\<^verbatim>\<open>https?://\<close>\<close>
  "http = seq [Lit ''http'', Rep 0 (Some 1) (AChar CHR ''s''), Lit ''://'']"

definition SOURCE_TYPES :: "source_type list" where
  \<open>SOURCE_TYPES = [
     \<lparr>st_key = ''jira'', st_label = ''JIRA'', st_icon = ''ticket'',
      st_url_patterns = [
        \<comment> \<open>\<^verbatim>\<open>https?://datadoghq\.atlassian\.net/browse/([\w-]+)\<close>, IGNORECASE\<close>
        icase_pattern (seq [http, Lit ''datadoghq.atlassian.net/browse/'',
          Group (Rep 1 None (ASet [CWord, CChar CHR ''-'']))])],
      st_ref_patterns = [
        \<comment> \<open>\<^verbatim>\<open>\b(SCRS-\d+|ZD-\d+|SECENG-\d+)\b\<close>\<close>
        plain_pattern (seq [WordB,
          Group (Alt (seq [Lit ''SCRS-'', Rep 1 None ADigit])
                (Alt (seq [Lit ''ZD-'', Rep 1 None ADigit])
                     (seq [Lit ''SECENG-'', Rep 1 None ADigit]))),
          WordB])]\<rparr>,
     \<lparr>st_key = ''confluence'', st_label = ''Confluence'', st_icon = ''wiki'',
      st_url_patterns = [
        \<comment> \<open>\<^verbatim>\<open>https?://datadoghq\.atlassian\.net/wiki/[\w/+.-]+\<close>, IGNORECASE\<close>
        icase_pattern (seq [http, Lit ''datadoghq.atlassian.net/wiki/'',
          Rep 1 None (ASet [CWord, CChar CHR ''/'', CChar CHR ''+'', CChar CHR ''.'',
                            CChar CHR ''-''])])],
      st_ref_patterns = []\<rparr>,
     \<lparr>st_key = ''datadog_docs'', st_label = ''Datadog Docs'', st_icon = ''docs'',
      st_url_patterns = [
        \<comment> \<open>\<^verbatim>\<open>https?://docs\.datadoghq\.com/[\w/._?&#%-]+\<close>, IGNORECASE\<close>
        icase_pattern (seq [http, Lit ''docs.datadoghq.com/'', Rep 1 None (ASet url_chars)])],
      st_ref_patterns = []\<rparr>,
     \<lparr>st_key = ''github'', st_label = ''GitHub'', st_icon = ''code'',
      st_url_patterns = [
        \<comment> \<open>\<^verbatim>\<open>https?://github\.com/[\w.-]+/[\w.-]+[\w/._?&#%-]*\<close>, IGNORECASE\<close>
        icase_pattern (seq [http, Lit ''github.com/'',
          Rep 1 None (ASet [CWord, CChar CHR ''.'', CChar CHR ''-'']), Lit ''/'',
          Rep 1 None (ASet [CWord, CChar CHR ''.'', CChar CHR ''-'']),
          Rep 0 None (ASet url_chars)])],
      st_ref_patterns = []\<rparr>,
     \<lparr>st_key = ''slack'', st_label = ''Slack'', st_icon = ''chat'',
      st_url_patterns = [
        \<comment> \<open>\<^verbatim>\<open>https?://dd\.(?:enterprise\.)?slack\.com/[\w/.-]+\<close>, IGNORECASE\<close>
        icase_pattern (seq [http, Lit ''dd.'', Opt (Lit ''enterprise.''), Lit ''slack.com/'',
          Rep 1 None (ASet [CWord, CChar CHR ''/'', CChar CHR ''.'', CChar CHR ''-''])])],
      st_ref_patterns = [
        \<comment> \<open>\<^verbatim>\<open>#[\w_-]{2,}\<close>, IGNORECASE\<close>
        icase_pattern (seq [Lit ''#'',
          Rep 2 None (ASet [CWord, CChar CHR ''_'', CChar CHR ''-''])])]\<rparr>,
     \<lparr>st_key = ''terraform'', st_label = ''Terraform'', st_icon = ''infra'',
      st_url_patterns = [
        \<comment> \<open>\<^verbatim>\<open>https?://registry\.terraform\.io/[\w/._?&#%-]+\<close>, IGNORECASE\<close>
        icase_pattern (seq [http, Lit ''registry.terraform.io/'', Rep 1 None (ASet url_chars)])],
      st_ref_patterns = []\<rparr>]\<close>

subsection \<open>The context of a match\<close>

definition MD_LINK :: pattern where
  \<comment> \<open>\<^verbatim>\<open>\[([^\]]+)\]\([^)]+\)\<close>\<close>
  "MD_LINK = plain_pattern (seq [Lit ''['', Group (Rep 1 None (ANot [CChar CHR '']''])),
     Lit '']('', Rep 1 None (ANot [CChar CHR '')'']), Lit '')''])"

definition MD_PUNCT :: pattern where
  \<comment> \<open>\<^verbatim>\<open>[#*>`_~]\<close>\<close>
  "MD_PUNCT = plain_pattern (Atom (ASet [CChar CHR ''#'', CChar CHR ''*'', CChar CHR ''>'',
     CChar CHR 0x60, CChar CHR ''_'', CChar CHR ''~'']))"

definition WS_RUN :: pattern where
  \<comment> \<open>\<^verbatim>\<open>\s+\<close>\<close>
  "WS_RUN = plain_pattern (Rep 1 None ASpace)"

definition group1 :: "rmatch \<Rightarrow> string" where
  \<comment> \<open>the template \<^verbatim>\<open>\1\<close>, and \<^verbatim>\<open>group(1)\<close> of a match whose group took part\<close>
  "group1 m = (case m_group1 m of Some g \<Rightarrow> g | None \<Rightarrow> [])"

definition clean_markdown :: "string \<Rightarrow> string" where
  \<comment> \<open>the three substitutions under \<^verbatim>\<open># Clean markdown syntax\<close>\<close>
  "clean_markdown line =
     (let clean = re_sub MD_LINK group1 line;
          clean = strip_ws (re_sub MD_PUNCT (\<lambda>m. []) clean)
      in re_sub WS_RUN (\<lambda>m. '' '') clean)"

definition remove_needle :: "string \<Rightarrow> string \<Rightarrow> string" where
  \<comment> \<open>\<^verbatim>\<open>clean.replace(needle, "").strip(" -:,.")\<close>\<close>
  "remove_needle needle clean = strip_chars '' -:,.'' (replace_del needle clean)"

definition truncate :: "string \<Rightarrow> string" where
  \<comment> \<open>\<^verbatim>\<open>if len(clean) > 150: clean = clean[:147] + "..."\<close>\<close>
  "truncate clean = (if 150 < length clean then take 147 clean @ ''...'' else clean)"

fun get_context_for_match :: "string list \<Rightarrow> string \<Rightarrow> string \<Rightarrow> string" where
  \<comment> \<open>\<^verbatim>\<open>_get_context_for_match(lines, needle, full_text)\<close>\<close>
  "get_context_for_match [] needle full_text = []"
| "get_context_for_match (line # lines) needle full_text =
     (if contains needle line then truncate (remove_needle needle (clean_markdown line))
      else get_context_for_match lines needle full_text)"

subsection \<open>The pass over the URL patterns\<close>

definition MD_LINK_OPEN :: pattern where
  \<comment> \<open>\<^verbatim>\<open>\[([^\]]+)\]\s*\($\<close>\<close>
  "MD_LINK_OPEN = plain_pattern (seq [Lit ''['', Group (Rep 1 None (ANot [CChar CHR '']''])),
     Lit '']'', ws, Lit ''('', EndS])"

type_synonym scan = "(string \<times> string) set \<times> source_ref list"

definition url_display :: "string \<Rightarrow> string \<Rightarrow> rmatch \<Rightarrow> string \<Rightarrow> string" where
  \<comment> \<open>the display text of a URL match\<close>
  "url_display src_key raw_text m url =
     (let start = m_start m;
          pre = drop (start - 200) (take start raw_text)
      in case re_search MD_LINK_OPEN pre of
           Some md_link \<Rightarrow> group1 md_link
         | None \<Rightarrow> if src_key = ''jira'' \<and> m_group1 m \<noteq> None then group1 m else url)"

definition url_step :: "string \<Rightarrow> string \<Rightarrow> string list \<Rightarrow> scan \<Rightarrow> rmatch \<Rightarrow> scan" where
  \<comment> \<open>the body of the loop over the matches of a URL pattern; \<open>acc\<close> is \<^verbatim>\<open>(refs_seen, refs)\<close>\<close>
  "url_step src_key raw_text lines acc m =
     (let url = rstrip_chars '')'' (m_group0 m);
          display = url_display src_key raw_text m url;
          dedup_key = (url, display)
      in if dedup_key \<in> fst acc then acc
         else (insert dedup_key (fst acc),
               snd acc @ [\<lparr>ref_url = Some url, ref_display = display,
                  ref_context = get_context_for_match lines (m_group0 m) raw_text\<rparr>]))"

definition url_pass :: "source_type \<Rightarrow> string \<Rightarrow> string list \<Rightarrow> scan" where
  \<comment> \<open>\<^verbatim>\<open>for url_pat in url_patterns: for match in url_pat.finditer(raw_text): ...\<close>\<close>
  "url_pass st raw_text lines =
     foldl (\<lambda>acc url_pat. foldl (url_step (st_key st) raw_text lines) acc (finditer url_pat raw_text))
       ({}, []) (st_url_patterns st)"

subsection \<open>The pass over the bare-reference patterns\<close>

fun already_captured :: "string \<Rightarrow> source_ref list \<Rightarrow> error + bool" where
  \<comment> \<open>\<^verbatim>\<open>any(ref_text in r["display"] or ref_text in r["url"] for r in refs)\<close>;
      \<^verbatim>\<open>in\<close> raises TypeError on a \<^verbatim>\<open>url\<close> that is \<^verbatim>\<open>None\<close>\<close>
  "already_captured ref_text [] = Inr False"
| "already_captured ref_text (r # rs) =
     (if contains ref_text (ref_display r) then Inr True
      else (case ref_url r of
              None \<Rightarrow> Inl TypeError
            | Some u \<Rightarrow> if contains ref_text u then Inr True else already_captured ref_text rs))"

definition build_url :: "string \<Rightarrow> string \<Rightarrow> string option" where
  \<comment> \<open>\<^verbatim>\<open># Build a URL where possible\<close>: for \<open>jira\<close> only; the branch for \<open>slack\<close> sets
      \<^verbatim>\<open>None\<close> again\<close>
  "build_url src_key ref_text =
     (if src_key = ''jira'' then Some (''https://datadoghq.atlassian.net/browse/'' @ ref_text)
      else None)"

definition ref_step :: "string \<Rightarrow> string \<Rightarrow> string list \<Rightarrow> scan \<Rightarrow> rmatch \<Rightarrow> error + scan" where
  \<comment> \<open>the body of the loop over the matches of a bare-reference pattern\<close>
  "ref_step src_key raw_text lines acc m =
     (let ref_text = m_group0 m
      in case already_captured ref_text (snd acc) of
           Inl e \<Rightarrow> Inl e
         | Inr True \<Rightarrow> Inr acc
         | Inr False \<Rightarrow>
             (let dedup_key = (ref_text, ref_text)
              in if dedup_key \<in> fst acc then Inr acc
                 else Inr (insert dedup_key (fst acc),
                        snd acc @ [\<lparr>ref_url = build_url src_key ref_text, ref_display = ref_text,
                           ref_context = get_context_for_match lines ref_text raw_text\<rparr>])))"

fun ref_matches :: "string \<Rightarrow> string \<Rightarrow> string list \<Rightarrow> scan \<Rightarrow> rmatch list \<Rightarrow> error + scan" where
  \<comment> \<open>\<^verbatim>\<open>for match in ref_pat.finditer(raw_text): ...\<close>\<close>
  "ref_matches src_key raw_text lines acc [] = Inr acc"
| "ref_matches src_key raw_text lines acc (m # ms) =
     (case ref_step src_key raw_text lines acc m of
        Inl e \<Rightarrow> Inl e
      | Inr acc' \<Rightarrow> ref_matches src_key raw_text lines acc' ms)"

fun ref_patterns_loop :: "string \<Rightarrow> string \<Rightarrow> string list \<Rightarrow> scan \<Rightarrow> pattern list \<Rightarrow> error + scan" where
  \<comment> \<open>\<^verbatim>\<open>for ref_pat in ref_patterns: ...\<close>\<close>
  "ref_patterns_loop src_key raw_text lines acc [] = Inr acc"
| "ref_patterns_loop src_key raw_text lines acc (ref_pat # ps) =
     (case ref_matches src_key raw_text lines acc (finditer ref_pat raw_text) of
        Inl e \<Rightarrow> Inl e
      | Inr acc' \<Rightarrow> ref_patterns_loop src_key raw_text lines acc' ps)"

definition ref_pass :: "source_type \<Rightarrow> string \<Rightarrow> string list \<Rightarrow> scan \<Rightarrow> error + scan" where
  "ref_pass st raw_text lines acc =
     ref_patterns_loop (st_key st) raw_text lines acc (st_ref_patterns st)"

subsection \<open>The whole extraction\<close>

definition source_refs :: "source_type \<Rightarrow> string \<Rightarrow> string list \<Rightarrow> error + source_ref list" where
  \<comment> \<open>the \<^verbatim>\<open>refs\<close> of one source type: the URL pass, then the bare-reference pass\<close>
  "source_refs st raw_text lines =
     (case ref_pass st raw_text lines (url_pass st raw_text lines) of
        Inl e \<Rightarrow> Inl e
      | Inr acc \<Rightarrow> Inr (snd acc))"

fun extract_loop ::
  "source_type list \<Rightarrow> string \<Rightarrow> string list \<Rightarrow> source_group list \<Rightarrow> error + source_group list" where
  \<comment> \<open>the loop over \<^verbatim>\<open>_SOURCE_TYPES\<close>; \<open>sources\<close> is the list built so far\<close>
  "extract_loop [] raw_text lines sources = Inr sources"
| "extract_loop (st # sts) raw_text lines sources =
     (case source_refs st raw_text lines of
        Inl e \<Rightarrow> Inl e
      | Inr refs \<Rightarrow>
          extract_loop sts raw_text lines
            (if refs \<noteq> [] then
               sources @ [\<lparr>grp_key = st_key st, grp_label = st_label st, grp_icon = st_icon st,
                            grp_refs = refs\<rparr>]
             else sources))"

definition extract_sources :: "string \<Rightarrow> error + source_group list" where
  "extract_sources raw_text = extract_loop SOURCE_TYPES raw_text (split_on CHR 0x0A raw_text) []"

section \<open>Vocabulary of the properties\<close>

text \<open>
  What the two loop bodies compute for one match, taken out of \<open>url_step\<close> and \<open>ref_step\<close>:
  the deduplication key of a URL match, and the reference that each body appends.
\<close>

definition url_key :: "string \<Rightarrow> string \<Rightarrow> rmatch \<Rightarrow> string \<times> string" where
  \<comment> \<open>\<^verbatim>\<open>dedup_key = (url, display)\<close> of a URL match\<close>
  "url_key src_key raw_text m =
     (let url = rstrip_chars '')'' (m_group0 m)
      in (url, url_display src_key raw_text m url))"

definition url_ref :: "string \<Rightarrow> string \<Rightarrow> string list \<Rightarrow> rmatch \<Rightarrow> source_ref" where
  \<comment> \<open>the reference the URL pass appends for a match\<close>
  "url_ref src_key raw_text lines m =
     \<lparr>ref_url = Some (fst (url_key src_key raw_text m)),
      ref_display = snd (url_key src_key raw_text m),
      ref_context = get_context_for_match lines (m_group0 m) raw_text\<rparr>"

definition bare_ref :: "string \<Rightarrow> string \<Rightarrow> string list \<Rightarrow> rmatch \<Rightarrow> source_ref" where
  \<comment> \<open>the reference the bare-reference pass appends for a match\<close>
  "bare_ref src_key raw_text lines m =
     \<lparr>ref_url = build_url src_key (m_group0 m), ref_display = m_group0 m,
      ref_context = get_context_for_match lines (m_group0 m) raw_text\<rparr>"

definition ref_key :: "source_ref \<Rightarrow> string option \<times> string" where
  \<comment> \<open>the pair (url, display) of a reference\<close>
  "ref_key r = (ref_url r, ref_display r)"

definition captured_in :: "string \<Rightarrow> source_ref \<Rightarrow> bool" where
  \<comment> \<open>the identifier is a substring of the display label or of the URL of the reference\<close>
  "captured_in x r =
     (contains x (ref_display r) \<or> (case ref_url r of None \<Rightarrow> False | Some u \<Rightarrow> contains x u))"

fun first_by :: "('a \<Rightarrow> 'k) \<Rightarrow> 'k set \<Rightarrow> 'a list \<Rightarrow> 'a list" where
  \<comment> \<open>the elements that are the first of the list with their key, the keys of \<open>seen\<close> left out;
      in the order of the list\<close>
  "first_by key seen [] = []"
| "first_by key seen (x # xs) =
     (if key x \<in> seen then first_by key seen xs
      else x # first_by key (insert (key x) seen) xs)"

definition all_matches :: "pattern list \<Rightarrow> string \<Rightarrow> rmatch list" where
  \<comment> \<open>the matches a pass iterates over: those of its first pattern, then of the next\<close>
  "all_matches ps raw_text = concat (map (\<lambda>p. finditer p raw_text) ps)"

definition refs_of :: "source_type \<Rightarrow> string \<Rightarrow> source_ref list" where
  \<comment> \<open>the references captured for a source type (none when the scan raises)\<close>
  "refs_of st raw_text =
     (case source_refs st raw_text (split_on CHR 0x0A raw_text) of
        Inr refs \<Rightarrow> refs
      | Inl e \<Rightarrow> [])"

definition group_of :: "source_type \<Rightarrow> string \<Rightarrow> source_group" where
  \<comment> \<open>the dict that \<open>extract_loop\<close> appends for a source type\<close>
  "group_of st raw_text =
     \<lparr>grp_key = st_key st, grp_label = st_label st, grp_icon = st_icon st,
      grp_refs = refs_of st raw_text\<rparr>"


section \<open>Properties of the classifier\<close>

lemma detect_loop_first:
  assumes "\<forall>r\<in>set pre. \<not> rule_matches r T" and "rule_matches R1 T"
  shows "detect_loop (pre @ R1 # post) T = rule_key R1"
  using assms
proof (induction pre)
  case Nil
  then have "rule_patterns R1 \<noteq> []" by (auto simp: rule_matches_def)
  with Nil show ?case by simp
next
  case (Cons r pre)
  then show ?case by simp
qed

lemma detect_loop_none:
  "\<forall>r\<in>set rs. \<not> rule_matches r T \<Longrightarrow> detect_loop rs T = ''other''"
  by (induction rs) auto

subsection \<open>Priority of the rules\<close>

text \<open>
  C4, as stated, fails: when a pattern of the \<open>cspm\<close> rule and a pattern of the \<open>vm\<close> rule both
  match, the result is not \<open>cspm\<close> if a rule before \<open>cspm\<close> matches as well.  The text
  \<open>siem cspm vulnerability\<close> is classified as \<open>siem\<close>.
\<close>

theorem priority_counterexample:
  "COMPILED_AREA_RULES ! 3 = CSPM_RULE \<and> COMPILED_AREA_RULES ! 4 = VM_RULE \<and>
   rule_matches CSPM_RULE ''siem cspm vulnerability'' \<and>
   rule_matches VM_RULE ''siem cspm vulnerability'' \<and>
   detect_product_area ''siem cspm vulnerability'' = ''siem'' \<and>
   rule_key CSPM_RULE = ''cspm''"
  by code_simp

text \<open>
  C4, amended: for every text \<open>T\<close> and every rule \<open>R1\<close> of the table, if some pattern of \<open>R1\<close>
  matches \<open>T\<close>, no pattern of a rule before \<open>R1\<close> matches \<open>T\<close>, and the organization-deletion
  phrase does not occur in \<open>T\<close>, then \<open>T\<close> is classified as the area of \<open>R1\<close>, whatever later
  rules match.  The first rule that matches wins.
\<close>

theorem first_matching_rule_wins:
  assumes "COMPILED_AREA_RULES = pre @ R1 # post"
    and "\<not> searches ORG_DELETION T"
    and "\<forall>r\<in>set pre. \<not> rule_matches r T"
    and "rule_matches R1 T"
  shows "detect_product_area T = rule_key R1"
proof -
  have "detect_loop (pre @ R1 # post) T = rule_key R1"
    using assms(3,4) by (rule detect_loop_first)
  then show ?thesis
    unfolding detect_product_area_def assms(1) using assms(2) by simp
qed

lemma cspm_vm_no_org_deletion: "\<not> searches ORG_DELETION ''cspm vulnerability''"
  by code_simp

lemma cspm_vm_no_earlier_rule:
  "list_all (\<lambda>r. \<not> rule_matches r ''cspm vulnerability'')
     [SIEM_RULE, AAP_RULE, WORKLOAD_PROTECTION_RULE]"
  by code_simp

lemma cspm_vm_cspm: "rule_matches CSPM_RULE ''cspm vulnerability''"
  by code_simp

lemma cspm_vm_vm: "rule_matches VM_RULE ''cspm vulnerability''"
  by code_simp

text \<open>The text \<open>cspm vulnerability\<close>, where both rules match and none before them, is \<open>cspm\<close>.\<close>

theorem first_matching_rule_wins_witness:
  "rule_matches CSPM_RULE ''cspm vulnerability'' \<and> rule_matches VM_RULE ''cspm vulnerability'' \<and>
   detect_product_area ''cspm vulnerability'' = ''cspm''"
proof -
  have t: "COMPILED_AREA_RULES = [SIEM_RULE, AAP_RULE, WORKLOAD_PROTECTION_RULE] @ CSPM_RULE #
     [VM_RULE, CIEM_RULE, SAST_RULE, SCA_RULE, IAST_RULE, OTHER_RULE]"
    by (simp add: COMPILED_AREA_RULES_def)
  have p: "\<forall>r\<in>set [SIEM_RULE, AAP_RULE, WORKLOAD_PROTECTION_RULE].
             \<not> rule_matches r ''cspm vulnerability''"
    using cspm_vm_no_earlier_rule by (simp only: list_all_iff)
  have "detect_product_area ''cspm vulnerability'' = rule_key CSPM_RULE"
    by (rule first_matching_rule_wins [OF t cspm_vm_no_org_deletion p cspm_vm_cspm])
  then have "detect_product_area ''cspm vulnerability'' = ''cspm''"
    by (simp add: CSPM_RULE_def)
  with cspm_vm_cspm cspm_vm_vm show ?thesis by blast
qed

subsection \<open>The organization-deletion phrase\<close>

text \<open>
  The phrase is found in every text that holds the words \<open>org\<close>, \<open>deletion\<close> and
  \<open>request\<close> in this order, in any letter case, with any whitespace or none between them.
\<close>

lemma upper_not_space: "\<forall>x\<in>set ''ABCDEFGHIJKLMNOPQRSTUVWXYZ''. \<not> is_space x"
  by (simp add: is_space_def)

lemma map_of_zip_None: "x \<notin> set xs \<Longrightarrow> map_of (zip xs ys) x = None"
proof (induction xs arbitrary: ys)
  case Nil
  show ?case by simp
next
  case (Cons a xs)
  then show ?case by (cases ys) auto
qed

lemma space_not_upper:
  assumes "is_space c"
  shows "to_lower c = c"
proof -
  from assms upper_not_space have "c \<notin> set ''ABCDEFGHIJKLMNOPQRSTUVWXYZ''" by blast
  then have "map_of (zip ''ABCDEFGHIJKLMNOPQRSTUVWXYZ'' ''abcdefghijklmnopqrstuvwxyz'') c = None"
    by (rule map_of_zip_None)
  then show ?thesis by (simp only: to_lower_def option.case)
qed

lemma lit_ok_lower:
  "map to_lower xs = map to_lower ps \<Longrightarrow> lit_ok True ps (xs @ rest)"
proof (induction ps arbitrary: xs)
  case Nil
  then show ?case by simp
next
  case (Cons p ps)
  then obtain x xs' where "xs = x # xs'" by (cases xs) auto
  with Cons show ?case by (auto simp: char_eq_def)
qed

lemma advance_append:
  "advance (length xs) (MState pos prev (xs @ rest) g) =
     MState (pos + length xs) (if xs = [] then prev else Some (last xs)) rest g"
  by (induction xs arbitrary: pos prev) auto

lemma ends_Lit_lower:
  assumes "map to_lower xs = map to_lower ps"
  shows "ends True (Lit ps) (MState pos prev (xs @ rest) g) =
           [MState (pos + length xs) (if xs = [] then prev else Some (last xs)) rest g]"
proof -
  from assms have "length ps = length xs" by (metis length_map)
  with lit_ok_lower [OF assms] show ?thesis by (simp add: advance_append)
qed

lemma run_len_spaces:
  "list_all is_space s \<Longrightarrow> (case rest of [] \<Rightarrow> True | c # _ \<Rightarrow> \<not> is_space c) \<Longrightarrow>
     run_len icase ASpace None (s @ rest) = length s"
  by (induction s) (auto split: list.splits)

lemma ends_ws_head:
  assumes "list_all is_space s" and "case rest of [] \<Rightarrow> True | c # _ \<Rightarrow> \<not> is_space c"
  shows "\<exists>sts. ends icase ws (MState pos prev (s @ rest) g) =
           MState (pos + length s) (if s = [] then prev else Some (last s)) rest g # sts"
  using run_len_spaces [OF assms] by (simp add: ws_def advance_append)

lemma ends_Seq_head:
  "ends icase r1 st = st1 # sts \<Longrightarrow> ends icase r2 st1 \<noteq> [] \<Longrightarrow> ends icase (Seq r1 r2) st \<noteq> []"
  by simp

lemma word_not_space:
  assumes "map to_lower w = p # ps" and "\<not> is_space p"
  shows "case w @ rest of [] \<Rightarrow> True | c # _ \<Rightarrow> \<not> is_space c"
proof -
  from assms(1) obtain c w' where w: "w = c # w'" and p: "p = to_lower c" by (cases w) auto
  have "\<not> is_space c"
  proof
    assume "is_space c"
    with p space_not_upper have "p = c" by simp
    with \<open>is_space c\<close> assms(2) show False by simp
  qed
  with w show ?thesis by simp
qed

lemma lower_words:
  "map to_lower ''org'' = ''org''"
  "map to_lower ''deletion'' = ''deletion''"
  "map to_lower ''request'' = ''request''"
  by code_simp+

lemma match_org_deletion:
  assumes "map to_lower w1 = ''org''" and "list_all is_space s1"
    and "map to_lower w2 = ''deletion''" and "list_all is_space s2"
    and "map to_lower w3 = ''request''"
  shows "match_at ORG_DELETION pos prev (w1 @ s1 @ w2 @ s2 @ w3 @ b) \<noteq> None"
proof -
  have l1: "map to_lower w1 = map to_lower ''org''" using assms(1) by (simp only: lower_words)
  have l2: "map to_lower w2 = map to_lower ''deletion''"
    using assms(3) by (simp only: lower_words)
  have l3: "map to_lower w3 = map to_lower ''request''"
    using assms(5) by (simp only: lower_words)
  have "\<not> is_space CHR ''d''" and "\<not> is_space CHR ''r''" by (simp_all add: is_space_def)
  then have n2: "case w2 @ s2 @ w3 @ b of [] \<Rightarrow> True | c # _ \<Rightarrow> \<not> is_space c"
    and n3: "case w3 @ b of [] \<Rightarrow> True | c # _ \<Rightarrow> \<not> is_space c"
    using assms(3,5) by (auto intro: word_not_space)
  have e5: "ends True (Seq (Lit ''request'') Eps) (MState p q (w3 @ b) g) \<noteq> []" for p q g
    by (rule ends_Seq_head [OF ends_Lit_lower [OF l3]]) simp
  have e4: "ends True (Seq ws (Seq (Lit ''request'') Eps)) (MState p q (s2 @ w3 @ b) g) \<noteq> []"
    for p q g
  proof -
    from ends_ws_head [OF assms(4) n3] obtain sts where
      "ends True ws (MState p q (s2 @ w3 @ b) g) =
         MState (p + length s2) (if s2 = [] then q else Some (last s2)) (w3 @ b) g # sts"
      by blast
    then show ?thesis by (rule ends_Seq_head) (rule e5)
  qed
  have e3: "ends True (Seq (Lit ''deletion'') (Seq ws (Seq (Lit ''request'') Eps)))
              (MState p q (w2 @ s2 @ w3 @ b) g) \<noteq> []" for p q g
    by (rule ends_Seq_head [OF ends_Lit_lower [OF l2]]) (rule e4)
  have e2: "ends True (Seq ws (Seq (Lit ''deletion'') (Seq ws (Seq (Lit ''request'') Eps))))
              (MState p q (s1 @ w2 @ s2 @ w3 @ b) g) \<noteq> []" for p q g
  proof -
    from ends_ws_head [OF assms(2) n2] obtain sts where
      "ends True ws (MState p q (s1 @ w2 @ s2 @ w3 @ b) g) =
         MState (p + length s1) (if s1 = [] then q else Some (last s1)) (w2 @ s2 @ w3 @ b) g # sts"
      by blast
    then show ?thesis by (rule ends_Seq_head) (rule e3)
  qed
  have e1: "ends True
      (Seq (Lit ''org'') (Seq ws (Seq (Lit ''deletion'') (Seq ws (Seq (Lit ''request'') Eps)))))
      (MState pos prev (w1 @ s1 @ w2 @ s2 @ w3 @ b) None) \<noteq> []"
    by (rule ends_Seq_head [OF ends_Lit_lower [OF l1]]) (rule e2)
  have r: "p_regex ORG_DELETION =
      Seq (Lit ''org'') (Seq ws (Seq (Lit ''deletion'') (Seq ws (Seq (Lit ''request'') Eps))))"
    and i: "p_icase ORG_DELETION = True"
    by (simp_all add: ORG_DELETION_def icase_pattern_def seq_def)
  show ?thesis
    unfolding match_at_def r i using e1 by (simp only: split: list.splits) simp
qed

lemma search_at_later:
  "match_at p (pos + length a) (if a = [] then prev else Some (last a)) rest \<noteq> None \<Longrightarrow>
     search_at p pos prev (a @ rest) \<noteq> None"
proof (induction a arbitrary: pos prev)
  case Nil
  then show ?case by (subst search_at.simps) (auto split: option.splits)
next
  case (Cons c a)
  have "search_at p (Suc pos) (Some c) (a @ rest) \<noteq> None"
    using Cons.prems by (intro Cons.IH) (auto split: if_splits)
  then show ?case by (subst search_at.simps) (auto split: option.splits)
qed

lemma org_deletion_phrase_found:
  assumes "map to_lower w1 = ''org''" and "list_all is_space s1"
    and "map to_lower w2 = ''deletion''" and "list_all is_space s2"
    and "map to_lower w3 = ''request''"
  shows "searches ORG_DELETION (a @ w1 @ s1 @ w2 @ s2 @ w3 @ b)"
  unfolding searches_def re_search_def
  using match_org_deletion [OF assms] by (intro search_at_later) simp

text \<open>
  C5: every text in which \<^verbatim>\<open>org\s*deletion\s*request\<close> is found, case-insensitively, is
  classified as \<open>other\<close>, whatever else it holds.
\<close>

theorem org_deletion_is_other:
  "searches ORG_DELETION T \<Longrightarrow> detect_product_area T = ''other''"
  by (simp add: detect_product_area_def)

lemma org_deletion_example: "searches ORG_DELETION ''CSPM: Org  Deletion Request''"
  by code_simp

lemma org_deletion_example_cspm: "rule_matches CSPM_RULE ''CSPM: Org  Deletion Request''"
  by code_simp

text \<open>A text with the phrase, in mixed case and with two spaces, and with the keyword \<open>cspm\<close>.\<close>

theorem org_deletion_is_other_witness:
  "searches ORG_DELETION ''CSPM: Org  Deletion Request'' \<and>
   rule_matches CSPM_RULE ''CSPM: Org  Deletion Request'' \<and>
   detect_product_area ''CSPM: Org  Deletion Request'' = ''other''"
  using org_deletion_example org_deletion_example_cspm
    org_deletion_is_other [OF org_deletion_example]
  by blast

subsection \<open>The fallback\<close>

lemma detect_empty: "detect_product_area [] = ''other''"
  by code_simp

lemma extract_empty: "extract_sources [] = Inr []"
  by code_simp

lemma hello_world_no_rule:
  "list_all (\<lambda>r. \<not> rule_matches r ''hello world'') COMPILED_AREA_RULES"
  by code_simp

text \<open>
  C9: the empty text is classified as \<open>other\<close>; so is every text in which no pattern of any
  rule matches (whether the organization-deletion phrase occurs or not); and the extraction of
  the empty text returns the empty list.
\<close>

theorem fallback_other:
  "detect_product_area [] = ''other'' \<and>
   ((\<forall>r\<in>set COMPILED_AREA_RULES. \<not> rule_matches r T) \<longrightarrow> detect_product_area T = ''other'') \<and>
   extract_sources [] = Inr []"
  using detect_empty extract_empty by (simp add: detect_product_area_def detect_loop_none)

theorem fallback_other_witness:
  "list_all (\<lambda>r. \<not> rule_matches r ''hello world'') COMPILED_AREA_RULES \<and>
   detect_product_area ''hello world'' = ''other''"
proof -
  have "\<forall>r\<in>set COMPILED_AREA_RULES. \<not> rule_matches r ''hello world''"
    using hello_world_no_rule by (simp only: list_all_iff)
  with fallback_other [of "''hello world''"] hello_world_no_rule show ?thesis by blast
qed

section \<open>Properties of the extractor\<close>

subsection \<open>Two channel references\<close>

text \<open>
  C1 says that the extraction never raises.  On a text with two distinct bare channel
  references it does: the second reference is checked against the \<^verbatim>\<open>url\<close> of the first,
  which is \<^verbatim>\<open>None\<close>, and \<^verbatim>\<open>in\<close> raises TypeError.
\<close>

theorem two_slack_channels_raise:
  "extract_sources ''#channel-one and #channel-two'' = Inl TypeError"
  by code_simp

subsection \<open>The two passes\<close>

lemma contains_sublist: "contains n s = sublist n s"
  by (induction s) (auto simp: sublist_Cons_right)

lemma contains_refl: "contains x x"
  by (simp add: contains_sublist)

lemma url_step_eq:
  "url_step k T ls acc m =
     (if url_key k T m \<in> fst acc then acc
      else (insert (url_key k T m) (fst acc), snd acc @ [url_ref k T ls m]))"
  by (simp add: url_step_def url_key_def url_ref_def Let_def)

lemma foldl_url_step:
  "foldl (url_step k T ls) (seen, refs) ms =
     (seen \<union> url_key k T ` set ms, refs @ map (url_ref k T ls) (first_by (url_key k T) seen ms))"
proof (induction ms arbitrary: seen refs)
  case Nil
  show ?case by simp
next
  case (Cons m ms)
  show ?case
  proof (cases "url_key k T m \<in> seen")
    case True
    then show ?thesis using Cons [of seen refs] by (auto simp: url_step_eq)
  next
    case False
    then show ?thesis
      using Cons [of "insert (url_key k T m) seen" "refs @ [url_ref k T ls m]"]
      by (auto simp: url_step_eq)
  qed
qed

lemma first_by_append:
  "first_by key seen (xs @ ys) = first_by key seen xs @ first_by key (seen \<union> key ` set xs) ys"
  by (induction xs arbitrary: seen) (auto simp: insert_absorb)

lemma foldl_url_patterns:
  "foldl (\<lambda>acc p. foldl (url_step k T ls) acc (finditer p T)) (seen, refs) ps =
     (seen \<union> url_key k T ` set (all_matches ps T),
      refs @ map (url_ref k T ls) (first_by (url_key k T) seen (all_matches ps T)))"
proof (induction ps arbitrary: seen refs)
  case Nil
  show ?case by (simp add: all_matches_def)
next
  case (Cons p ps)
  show ?case
    by (simp add: foldl_url_step Cons all_matches_def first_by_append Un_assoc image_Un)
qed

lemma url_pass_eq:
  "url_pass st T ls =
     (url_key (st_key st) T ` set (all_matches (st_url_patterns st) T),
      map (url_ref (st_key st) T ls) (first_by (url_key (st_key st) T) {} (all_matches (st_url_patterns st) T)))"
  by (simp add: url_pass_def foldl_url_patterns)

lemma already_captured_False:
  "already_captured x rs = Inr False \<Longrightarrow> \<forall>r\<in>set rs. \<not> captured_in x r"
  by (induction rs) (auto simp: captured_in_def split: if_splits option.splits)

lemma already_captured_True:
  "already_captured x rs = Inr True \<Longrightarrow> \<exists>r\<in>set rs. captured_in x r"
proof (induction rs)
  case Nil
  then show ?case by simp
next
  case (Cons r rs)
  show ?case
  proof (cases "captured_in x r")
    case True
    then show ?thesis by simp
  next
    case False
    with Cons.prems have "already_captured x rs = Inr True"
      by (auto simp: captured_in_def split: if_splits option.splits)
    with Cons.IH show ?thesis by auto
  qed
qed

lemma ref_step_cases:
  assumes "ref_step k T ls acc m = Inr acc'"
  shows "(acc' = acc \<and> ((\<exists>r\<in>set (snd acc). captured_in (m_group0 m) r) \<or> (m_group0 m, m_group0 m) \<in> fst acc)) \<or>
         (acc' = (insert (m_group0 m, m_group0 m) (fst acc), snd acc @ [bare_ref k T ls m]) \<and>
          (\<forall>r\<in>set (snd acc). \<not> captured_in (m_group0 m) r) \<and> (m_group0 m, m_group0 m) \<notin> fst acc)"
proof (cases "already_captured (m_group0 m) (snd acc)")
  case (Inl e)
  with assms show ?thesis by (simp add: ref_step_def)
next
  case (Inr b)
  show ?thesis
  proof (cases b)
    case True
    with Inr assms already_captured_True [of "m_group0 m" "snd acc"] show ?thesis
      by (auto simp: ref_step_def)
  next
    case False
    with Inr assms already_captured_False [of "m_group0 m" "snd acc"] show ?thesis
      by (auto simp: ref_step_def bare_ref_def Let_def split: if_splits)
  qed
qed

lemma ref_matches_append:
  "ref_matches k T ls acc (xs @ ys) =
     (case ref_matches k T ls acc xs of Inl e \<Rightarrow> Inl e | Inr acc' \<Rightarrow> ref_matches k T ls acc' ys)"
  by (induction xs arbitrary: acc) (auto split: sum.splits)

lemma ref_patterns_loop_eq:
  "ref_patterns_loop k T ls acc ps = ref_matches k T ls acc (all_matches ps T)"
  by (induction ps arbitrary: acc) (auto simp: all_matches_def ref_matches_append split: sum.splits)

lemma ref_matches_appends:
  assumes "ref_matches k T ls acc ms = Inr acc'"
    and "\<forall>t\<in>D. (t, t) \<in> fst acc \<or> (\<exists>r\<in>set (snd acc). captured_in t r)"
  shows "\<exists>sel. subseq sel (first_by m_group0 D ms) \<and>
           snd acc' = snd acc @ map (bare_ref k T ls) sel \<and>
           (\<forall>j<length sel. \<forall>r\<in>set (snd acc @ map (bare_ref k T ls) (take j sel)).
               \<not> captured_in (m_group0 (sel ! j)) r)"
  using assms
proof (induction ms arbitrary: acc D)
  case Nil
  then show ?case by simp
next
  case (Cons m ms)
  let ?t = "m_group0 m"
  from Cons.prems(1) obtain acc1 where
    step: "ref_step k T ls acc m = Inr acc1" and rest: "ref_matches k T ls acc1 ms = Inr acc'"
    by (auto split: sum.splits)
  from ref_step_cases [OF step]
  consider
    (skip) "acc1 = acc" "(\<exists>r\<in>set (snd acc). captured_in ?t r) \<or> (?t, ?t) \<in> fst acc"
  | (app) "acc1 = (insert (?t, ?t) (fst acc), snd acc @ [bare_ref k T ls m])"
      "\<forall>r\<in>set (snd acc). \<not> captured_in ?t r" "(?t, ?t) \<notin> fst acc"
    by blast
  then show ?case
  proof cases
    case skip
    have inv: "\<forall>t\<in>insert ?t D. (t, t) \<in> fst acc \<or> (\<exists>r\<in>set (snd acc). captured_in t r)"
      using skip(2) Cons.prems(2) by auto
    from Cons.IH [OF rest [unfolded skip(1)] inv] obtain sel where
      sel: "subseq sel (first_by m_group0 (insert ?t D) ms)"
        "snd acc' = snd acc @ map (bare_ref k T ls) sel"
        "\<forall>j<length sel. \<forall>r\<in>set (snd acc @ map (bare_ref k T ls) (take j sel)).
            \<not> captured_in (m_group0 (sel ! j)) r"
      by blast
    have "subseq sel (first_by m_group0 D (m # ms))"
    proof (cases "?t \<in> D")
      case True
      then show ?thesis using sel(1) by (simp add: insert_absorb)
    next
      case False
      then show ?thesis using sel(1) by (simp add: list_emb_Cons)
    qed
    with sel(2,3) show ?thesis by blast
  next
    case app
    have notD: "?t \<notin> D" using app(2,3) Cons.prems(2) by blast
    have inv: "\<forall>t\<in>insert ?t D. (t, t) \<in> fst acc1 \<or> (\<exists>r\<in>set (snd acc1). captured_in t r)"
      using Cons.prems(2) by (auto simp: app(1))
    from Cons.IH [OF rest inv] obtain sel where
      sel: "subseq sel (first_by m_group0 (insert ?t D) ms)"
        "snd acc' = snd acc1 @ map (bare_ref k T ls) sel"
        "\<forall>j<length sel. \<forall>r\<in>set (snd acc1 @ map (bare_ref k T ls) (take j sel)).
            \<not> captured_in (m_group0 (sel ! j)) r"
      by blast
    have a: "subseq (m # sel) (first_by m_group0 D (m # ms))"
      using notD sel(1) by simp
    have b: "snd acc' = snd acc @ map (bare_ref k T ls) (m # sel)"
      using sel(2) by (simp add: app(1))
    have c: "\<forall>j<length (m # sel). \<forall>r\<in>set (snd acc @ map (bare_ref k T ls) (take j (m # sel))).
               \<not> captured_in (m_group0 ((m # sel) ! j)) r"
    proof (intro allI impI)
      fix j assume j: "j < length (m # sel)"
      show "\<forall>r\<in>set (snd acc @ map (bare_ref k T ls) (take j (m # sel))).
               \<not> captured_in (m_group0 ((m # sel) ! j)) r"
      proof (cases j)
        case 0
        then show ?thesis using app(2) by simp
      next
        case (Suc j')
        with j have "j' < length sel" by simp
        with sel(3) have "\<forall>r\<in>set (snd acc1 @ map (bare_ref k T ls) (take j' sel)).
            \<not> captured_in (m_group0 (sel ! j')) r" by blast
        then show ?thesis by (simp add: Suc app(1))
      qed
    qed
    from a b c show ?thesis by blast
  qed
qed

lemma source_refs_shape:
  assumes "source_refs st T ls = Inr refs"
  shows "\<exists>sel. subseq sel (first_by m_group0 {} (all_matches (st_ref_patterns st) T)) \<and>
           refs = snd (url_pass st T ls) @ map (bare_ref (st_key st) T ls) sel \<and>
           (\<forall>j<length sel.
              \<forall>r\<in>set (snd (url_pass st T ls) @ map (bare_ref (st_key st) T ls) (take j sel)).
                \<not> captured_in (m_group0 (sel ! j)) r)"
proof -
  from assms obtain acc' where
    r: "ref_matches (st_key st) T ls (url_pass st T ls) (all_matches (st_ref_patterns st) T) = Inr acc'"
    and refs: "refs = snd acc'"
    by (auto simp: source_refs_def ref_pass_def ref_patterns_loop_eq split: sum.splits)
  have "\<forall>t\<in>{}. (t, t) \<in> fst (url_pass st T ls) \<or> (\<exists>r\<in>set (snd (url_pass st T ls)). captured_in t r)"
    by simp
  from ref_matches_appends [OF r this] show ?thesis unfolding refs by blast
qed

lemma extract_loop_shape:
  assumes "extract_loop sts T (split_on CHR 0x0A T) acc = Inr gs"
  shows "(\<forall>st\<in>set sts. source_refs st T (split_on CHR 0x0A T) = Inr (refs_of st T)) \<and>
         gs = acc @ map (\<lambda>st. group_of st T) (filter (\<lambda>st. refs_of st T \<noteq> []) sts)"
  using assms
proof (induction sts arbitrary: acc)
  case Nil
  then show ?case by simp
next
  case (Cons st sts)
  from Cons.prems obtain refs where
    r: "source_refs st T (split_on CHR 0x0A T) = Inr refs"
    and rest: "extract_loop sts T (split_on CHR 0x0A T)
        (if refs \<noteq> [] then acc @ [\<lparr>grp_key = st_key st, grp_label = st_label st,
           grp_icon = st_icon st, grp_refs = refs\<rparr>] else acc) = Inr gs"
    by (auto split: sum.splits)
  have ro: "refs_of st T = refs" by (simp add: refs_of_def r)
  from Cons.IH [OF rest] r ro show ?case by (auto simp: group_of_def)
qed

lemma extract_sources_shape:
  assumes "extract_sources T = Inr gs"
  shows "(\<forall>st\<in>set SOURCE_TYPES. source_refs st T (split_on CHR 0x0A T) = Inr (refs_of st T)) \<and>
         gs = map (\<lambda>st. group_of st T) (filter (\<lambda>st. refs_of st T \<noteq> []) SOURCE_TYPES)"
  using extract_loop_shape [of SOURCE_TYPES T "[]" gs] assms by (simp add: extract_sources_def)

lemma first_by_distinct:
  "distinct (map key (first_by key seen xs)) \<and> (\<forall>x\<in>set (first_by key seen xs). key x \<notin> seen)"
proof (induction xs arbitrary: seen)
  case Nil
  show ?case by simp
next
  case (Cons x xs)
  from Cons [of seen] Cons [of "insert (key x) seen"] show ?case by auto
qed

lemma first_by_subseq: "subseq (first_by key seen xs) xs"
  by (induction xs arbitrary: seen) (auto simp: list_emb_Cons)

lemma distinct_extend:
  assumes "distinct (map f U)"
    and "\<forall>j<length B. \<forall>r\<in>set (U @ take j B). f r \<noteq> f (B ! j)"
  shows "distinct (map f (U @ B))"
  using assms(2)
proof (induction B rule: rev_induct)
  case Nil
  show ?case using assms(1) by simp
next
  case (snoc b B)
  have "\<forall>j<length B. \<forall>r\<in>set (U @ take j B). f r \<noteq> f (B ! j)"
  proof (intro allI impI)
    fix j assume j: "j < length B"
    with snoc.prems have "\<forall>r\<in>set (U @ take j (B @ [b])). f r \<noteq> f ((B @ [b]) ! j)" by simp
    with j show "\<forall>r\<in>set (U @ take j B). f r \<noteq> f (B ! j)" by (simp add: nth_append)
  qed
  with snoc.IH have d: "distinct (map f (U @ B))" by blast
  have "length B < length (B @ [b])" by simp
  with snoc.prems
  have "\<forall>r\<in>set (U @ take (length B) (B @ [b])). f r \<noteq> f ((B @ [b]) ! length B)"
    by blast
  then have "\<forall>r\<in>set (U @ B). f r \<noteq> f b" by simp
  with d show ?case by auto
qed

subsection \<open>Contexts and matches\<close>







lemma match_at_start: "match_at p pos prev rest = Some m \<Longrightarrow> m_start m = pos"
  by (auto simp: match_at_def split: list.splits)

lemma finditer_at_sorted:
  "(\<forall>m\<in>set (finditer_at p skip pos prev rest). pos \<le> m_start m) \<and>
   sorted_wrt (\<lambda>a b. m_start a < m_start b) (finditer_at p skip pos prev rest)"
proof (induction p skip pos prev rest rule: finditer_at.induct)
  case (1 p skip pos prev rest)
  show ?case
  proof (cases rest)
    case Nil
    then show ?thesis
      by (subst (1 2) finditer_at.simps) (auto dest: match_at_start split: option.splits)
  next
    case (Cons c cs)
    show ?thesis
    proof (cases "0 < skip")
      case True
      from 1(1) [OF True Cons] show ?thesis
        by (subst (1 2) finditer_at.simps) (use True Cons in \<open>auto simp: Suc_le_eq less_imp_le\<close>)
    next
      case False
      show ?thesis
      proof (cases "match_at p pos prev rest")
        case None
        from 1(2) [OF False None Cons] show ?thesis
          by (subst (1 2) finditer_at.simps)
            (use False None Cons in \<open>auto simp: Suc_le_eq less_imp_le\<close>)
      next
        case (Some m)
        from 1(3) [OF False Some Cons] match_at_start [OF Some] show ?thesis
          by (subst (1 2) finditer_at.simps)
            (use False Some Cons in \<open>auto simp: Suc_le_eq less_imp_le\<close>)
      qed
    qed
  qed
qed

lemma finditer_sorted: "sorted_wrt (\<lambda>a b. m_start a < m_start b) (finditer p T)"
  by (simp add: finditer_def finditer_at_sorted)

lemma match_at_group0:
  "match_at p pos prev rest = Some m \<Longrightarrow> m_group0 m = take (m_end m - m_start m) rest"
  by (auto simp: match_at_def split: list.splits)

lemma drop_Cons_Suc: "drop n xs = c # cs \<Longrightarrow> drop (Suc n) xs = cs"
  by (metis drop_Suc list.sel(3) tl_drop)

lemma finditer_at_occurs:
  "rest = drop pos T \<Longrightarrow>
   \<forall>m\<in>set (finditer_at p skip pos prev rest).
     m_group0 m = take (m_end m - m_start m) (drop (m_start m) T)"
proof (induction p skip pos prev rest rule: finditer_at.induct)
  case (1 p skip pos prev rest)
  have here: "m_group0 m = take (m_end m - m_start m) (drop (m_start m) T)"
    if "match_at p pos prev rest = Some m" for m
    using match_at_start [OF that] match_at_group0 [OF that] "1.prems" by simp
  show ?case
  proof (cases rest)
    case Nil
    note h = here [unfolded Nil]
    show ?thesis unfolding Nil
      by (subst finditer_at.simps) (auto simp: h split: option.splits)
  next
    case (Cons c cs)
    with "1.prems" have "drop pos T = c # cs" by simp
    then have cs: "cs = drop (Suc pos) T" by (simp add: drop_Cons_Suc)
    show ?thesis
    proof (cases "0 < skip")
      case True
      from 1(1) [OF True Cons cs] show ?thesis
        by (subst finditer_at.simps) (use True Cons in simp)
    next
      case False
      show ?thesis
      proof (cases "match_at p pos prev rest")
        case None
        from 1(2) [OF False None Cons cs] show ?thesis
          by (subst finditer_at.simps) (use False None Cons in simp)
      next
        case (Some m)
        from 1(3) [OF False Some Cons cs] here [OF Some]
        show ?thesis
          by (subst finditer_at.simps) (use False Some Cons in simp)
      qed
    qed
  qed
qed

lemma finditer_occurs:
  "m \<in> set (finditer p T) \<Longrightarrow> m_group0 m = take (m_end m - m_start m) (drop (m_start m) T)"
  using finditer_at_occurs [of T 0 T p 0 None] by (simp add: finditer_def)

subsection \<open>Deleting the literal\<close>









subsection \<open>The result and an example\<close>

lemma group_in_result:
  assumes "extract_sources T = Inr gs" and "g \<in> set gs"
  shows "\<exists>st\<in>set SOURCE_TYPES. g = group_of st T \<and> refs_of st T \<noteq> [] \<and>
           source_refs st T (split_on CHR 0x0A T) = Inr (refs_of st T)"
  using extract_sources_shape [OF assms(1)] assms(2) by auto

lemma source_types_keys:
  "map st_key SOURCE_TYPES =
     [''jira'', ''confluence'', ''datadog_docs'', ''github'', ''slack'', ''terraform'']"
  by (simp add: SOURCE_TYPES_def)

lemma source_types_patterns:
  "st \<in> set SOURCE_TYPES \<Longrightarrow>
     (\<exists>up. st_url_patterns st = [up]) \<and> length (st_ref_patterns st) \<le> 1"
  by (auto simp: SOURCE_TYPES_def)

lemma example_extract:
  "extract_sources ''#ab ZD-1 https://datadoghq.atlassian.net/browse/SCRS-2'' =
   Inr [\<lparr>grp_key = ''jira'', grp_label = ''JIRA'', grp_icon = ''ticket'',
          grp_refs =
            [\<lparr>ref_url = Some ''https://datadoghq.atlassian.net/browse/SCRS-2'',
              ref_display = ''SCRS-2'', ref_context = ''ab ZD-1''\<rparr>,
             \<lparr>ref_url = Some ''https://datadoghq.atlassian.net/browse/ZD-1'',
              ref_display = ''ZD-1'',
              ref_context = ''ab  https://datadoghq.atlassian.net/browse/SCRS-2''\<rparr>]\<rparr>,
        \<lparr>grp_key = ''slack'', grp_label = ''Slack'', grp_icon = ''chat'',
          grp_refs =
            [\<lparr>ref_url = None, ref_display = ''#ab'',
              ref_context = ''ab ZD-1 https://datadoghq.atlassian.net/browse/SCRS-2''\<rparr>]\<rparr>]"
  by code_simp

subsection \<open>The groups of the result\<close>

text \<open>
  C7: when the extraction returns, its groups are those of the source types for which at least
  one reference was captured, one group a type, in the order of the table \<^verbatim>\<open>_SOURCE_TYPES\<close>
  (jira, confluence, datadog_docs, github, slack, terraform), whatever the order in which the
  matches stand in the text; no group is empty.
\<close>

theorem groups_follow_table_order:
  assumes "extract_sources T = Inr gs"
  shows "gs = map (\<lambda>st. group_of st T) (filter (\<lambda>st. refs_of st T \<noteq> []) SOURCE_TYPES) \<and>
         (\<forall>st\<in>set SOURCE_TYPES. source_refs st T (split_on CHR 0x0A T) = Inr (refs_of st T)) \<and>
         subseq (map grp_key gs)
           [''jira'', ''confluence'', ''datadog_docs'', ''github'', ''slack'', ''terraform''] \<and>
         (\<forall>g\<in>set gs. grp_refs g \<noteq> [])"
proof -
  note sh = extract_sources_shape [OF assms]
  have k: "map grp_key gs = map st_key (filter (\<lambda>st. refs_of st T \<noteq> []) SOURCE_TYPES)"
    using sh by (simp add: group_of_def comp_def)
  have "subseq (map st_key (filter (\<lambda>st. refs_of st T \<noteq> []) SOURCE_TYPES)) (map st_key SOURCE_TYPES)"
    by (intro subseq_map subseq_filter_left)
  then have s: "subseq (map grp_key gs)
      [''jira'', ''confluence'', ''datadog_docs'', ''github'', ''slack'', ''terraform'']"
    by (simp only: k source_types_keys)
  have n: "\<forall>g\<in>set gs. grp_refs g \<noteq> []"
    using sh by (auto simp: group_of_def)
  from sh s n show ?thesis by blast
qed

text \<open>The witness: in the example, \<open>#ab\<close> is the first match of the text, and \<open>jira\<close> still comes first.\<close>

theorem groups_follow_table_order_witness:
  "extract_sources ''#ab ZD-1 https://datadoghq.atlassian.net/browse/SCRS-2'' = Inr [\<lparr>grp_key = ''jira'', grp_label = ''JIRA'', grp_icon = ''ticket'',
       grp_refs = [\<lparr>ref_url = Some ''https://datadoghq.atlassian.net/browse/SCRS-2'',
       ref_display = ''SCRS-2'', ref_context = ''ab ZD-1''\<rparr>, \<lparr>ref_url = Some ''https://datadoghq.atlassian.net/browse/ZD-1'',
       ref_display = ''ZD-1'',
       ref_context = ''ab  https://datadoghq.atlassian.net/browse/SCRS-2''\<rparr>]\<rparr>, \<lparr>grp_key = ''slack'', grp_label = ''Slack'', grp_icon = ''chat'',
       grp_refs = [\<lparr>ref_url = None, ref_display = ''#ab'',
         ref_context = ''ab ZD-1 https://datadoghq.atlassian.net/browse/SCRS-2''\<rparr>]\<rparr>] \<and>
   [\<lparr>grp_key = ''jira'', grp_label = ''JIRA'', grp_icon = ''ticket'',
       grp_refs = [\<lparr>ref_url = Some ''https://datadoghq.atlassian.net/browse/SCRS-2'',
       ref_display = ''SCRS-2'', ref_context = ''ab ZD-1''\<rparr>, \<lparr>ref_url = Some ''https://datadoghq.atlassian.net/browse/ZD-1'',
       ref_display = ''ZD-1'',
       ref_context = ''ab  https://datadoghq.atlassian.net/browse/SCRS-2''\<rparr>]\<rparr>, \<lparr>grp_key = ''slack'', grp_label = ''Slack'', grp_icon = ''chat'',
       grp_refs = [\<lparr>ref_url = None, ref_display = ''#ab'',
         ref_context = ''ab ZD-1 https://datadoghq.atlassian.net/browse/SCRS-2''\<rparr>]\<rparr>] =
     map (\<lambda>st. group_of st ''#ab ZD-1 https://datadoghq.atlassian.net/browse/SCRS-2'') (filter (\<lambda>st. refs_of st ''#ab ZD-1 https://datadoghq.atlassian.net/browse/SCRS-2'' \<noteq> []) SOURCE_TYPES) \<and>
   subseq [''jira'', ''slack'']
     [''jira'', ''confluence'', ''datadog_docs'', ''github'', ''slack'', ''terraform'']"
  using example_extract groups_follow_table_order [OF example_extract] by simp

subsection \<open>No reference twice\<close>

text \<open>
  C3: when the extraction returns, no group holds two references with the same pair
  (url, display).  The pair alone decides: the context, which the loop bodies compute only
  after the checks have let the candidate through, has no part in it.
\<close>

theorem refs_distinct:
  assumes "extract_sources T = Inr gs" and "g \<in> set gs"
  shows "distinct (map ref_key (grp_refs g))"
proof -
  let ?ls = "split_on CHR 0x0A T"
  from group_in_result [OF assms] obtain st where
    g: "g = group_of st T" and sr: "source_refs st T ?ls = Inr (refs_of st T)"
    by blast
  let ?k = "st_key st"
  let ?U = "snd (url_pass st T ?ls)"
  from source_refs_shape [OF sr] obtain sel where
    refs: "refs_of st T = ?U @ map (bare_ref ?k T ?ls) sel"
    and nc: "\<forall>j<length sel. \<forall>r\<in>set (?U @ map (bare_ref ?k T ?ls) (take j sel)).
               \<not> captured_in (m_group0 (sel ! j)) r"
    by blast
  let ?ms = "first_by (url_key ?k T) {} (all_matches (st_url_patterns st) T)"
  have mU: "map ref_key ?U = map (\<lambda>p. (Some (fst p), snd p)) (map (url_key ?k T) ?ms)"
    by (simp add: url_pass_eq ref_key_def url_ref_def comp_def)
  have dk: "distinct (map (url_key ?k T) ?ms)" using first_by_distinct by blast
  have "distinct (map (\<lambda>p. (Some (fst p), snd p) :: string option \<times> string)
                   (map (url_key ?k T) ?ms))"
  proof (subst distinct_map, intro conjI)
    show "distinct (map (url_key ?k T) ?ms)" by (rule dk)
    show "inj_on (\<lambda>p. (Some (fst p), snd p) :: string option \<times> string)
            (set (map (url_key ?k T) ?ms))"
      by (auto simp: inj_on_def prod_eq_iff)
  qed
  then have dU: "distinct (map ref_key ?U)" by (simp only: mU)
  have "\<forall>j<length (map (bare_ref ?k T ?ls) sel).
          \<forall>r\<in>set (?U @ take j (map (bare_ref ?k T ?ls) sel)).
            ref_key r \<noteq> ref_key (map (bare_ref ?k T ?ls) sel ! j)"
  proof (intro allI impI ballI)
    fix j r
    assume j: "j < length (map (bare_ref ?k T ?ls) sel)"
      and r: "r \<in> set (?U @ take j (map (bare_ref ?k T ?ls) sel))"
    from j have j': "j < length sel" by simp
    from r have "r \<in> set (?U @ map (bare_ref ?k T ?ls) (take j sel))" by (simp add: take_map)
    with nc j' have "\<not> captured_in (m_group0 (sel ! j)) r" by blast
    then have "ref_display r \<noteq> m_group0 (sel ! j)"
      using contains_refl by (auto simp: captured_in_def)
    with j' show "ref_key r \<noteq> ref_key (map (bare_ref ?k T ?ls) sel ! j)"
      by (simp add: ref_key_def bare_ref_def)
  qed
  from distinct_extend [OF dU this] show ?thesis
    by (simp add: g group_of_def refs)
qed

text \<open>The witness: the two references of the \<open>jira\<close> group of the example.\<close>

theorem refs_distinct_witness:
  "extract_sources ''#ab ZD-1 https://datadoghq.atlassian.net/browse/SCRS-2'' = Inr [\<lparr>grp_key = ''jira'', grp_label = ''JIRA'', grp_icon = ''ticket'',
       grp_refs = [\<lparr>ref_url = Some ''https://datadoghq.atlassian.net/browse/SCRS-2'',
       ref_display = ''SCRS-2'', ref_context = ''ab ZD-1''\<rparr>, \<lparr>ref_url = Some ''https://datadoghq.atlassian.net/browse/ZD-1'',
       ref_display = ''ZD-1'',
       ref_context = ''ab  https://datadoghq.atlassian.net/browse/SCRS-2''\<rparr>]\<rparr>, \<lparr>grp_key = ''slack'', grp_label = ''Slack'', grp_icon = ''chat'',
       grp_refs = [\<lparr>ref_url = None, ref_display = ''#ab'',
         ref_context = ''ab ZD-1 https://datadoghq.atlassian.net/browse/SCRS-2''\<rparr>]\<rparr>] \<and>
   distinct (map ref_key [\<lparr>ref_url = Some ''https://datadoghq.atlassian.net/browse/SCRS-2'',
       ref_display = ''SCRS-2'', ref_context = ''ab ZD-1''\<rparr>, \<lparr>ref_url = Some ''https://datadoghq.atlassian.net/browse/ZD-1'',
       ref_display = ''ZD-1'',
       ref_context = ''ab  https://datadoghq.atlassian.net/browse/SCRS-2''\<rparr>])"
proof -
  have "\<lparr>grp_key = ''jira'', grp_label = ''JIRA'', grp_icon = ''ticket'',
       grp_refs = [\<lparr>ref_url = Some ''https://datadoghq.atlassian.net/browse/SCRS-2'',
       ref_display = ''SCRS-2'', ref_context = ''ab ZD-1''\<rparr>, \<lparr>ref_url = Some ''https://datadoghq.atlassian.net/browse/ZD-1'',
       ref_display = ''ZD-1'',
       ref_context = ''ab  https://datadoghq.atlassian.net/browse/SCRS-2''\<rparr>]\<rparr> \<in> set [\<lparr>grp_key = ''jira'', grp_label = ''JIRA'', grp_icon = ''ticket'',
       grp_refs = [\<lparr>ref_url = Some ''https://datadoghq.atlassian.net/browse/SCRS-2'',
       ref_display = ''SCRS-2'', ref_context = ''ab ZD-1''\<rparr>, \<lparr>ref_url = Some ''https://datadoghq.atlassian.net/browse/ZD-1'',
       ref_display = ''ZD-1'',
       ref_context = ''ab  https://datadoghq.atlassian.net/browse/SCRS-2''\<rparr>]\<rparr>, \<lparr>grp_key = ''slack'', grp_label = ''Slack'', grp_icon = ''chat'',
       grp_refs = [\<lparr>ref_url = None, ref_display = ''#ab'',
         ref_context = ''ab ZD-1 https://datadoghq.atlassian.net/browse/SCRS-2''\<rparr>]\<rparr>]" by simp
  from refs_distinct [OF example_extract this] example_extract show ?thesis by simp
qed

subsection \<open>Bare references already captured\<close>

text \<open>
  C2: when the extraction returns, the references of a group are those of the URL pass
  followed by references that the bare-reference pass made from matches of the bare patterns;
  the identifier of none of these is a substring of the display label or of the URL of a
  reference of the URL pass, nor of a reference that stands before it in the group.  So an
  identifier that a captured display label or URL contains has no bare entry of its own.
\<close>

theorem contained_bare_reference_suppressed:
  assumes "extract_sources T = Inr gs" and "g \<in> set gs"
  shows "\<exists>st sel. st \<in> set SOURCE_TYPES \<and> grp_key g = st_key st \<and>
           set sel \<subseteq> set (all_matches (st_ref_patterns st) T) \<and>
           grp_refs g = snd (url_pass st T (split_on CHR 0x0A T)) @
                        map (bare_ref (st_key st) T (split_on CHR 0x0A T)) sel \<and>
           (\<forall>b\<in>set sel. \<forall>u\<in>set (snd (url_pass st T (split_on CHR 0x0A T))).
               \<not> captured_in (m_group0 b) u) \<and>
           (\<forall>j<length sel.
               \<forall>r\<in>set (snd (url_pass st T (split_on CHR 0x0A T)) @
                        map (bare_ref (st_key st) T (split_on CHR 0x0A T)) (take j sel)).
                 \<not> captured_in (m_group0 (sel ! j)) r)"
proof -
  let ?ls = "split_on CHR 0x0A T"
  from group_in_result [OF assms] obtain st where
    st: "st \<in> set SOURCE_TYPES" and g: "g = group_of st T"
    and sr: "source_refs st T ?ls = Inr (refs_of st T)"
    by blast
  let ?U = "snd (url_pass st T ?ls)"
  from source_refs_shape [OF sr] obtain sel where
    sub: "subseq sel (first_by m_group0 {} (all_matches (st_ref_patterns st) T))"
    and refs: "refs_of st T = ?U @ map (bare_ref (st_key st) T ?ls) sel"
    and nc: "\<forall>j<length sel. \<forall>r\<in>set (?U @ map (bare_ref (st_key st) T ?ls) (take j sel)).
               \<not> captured_in (m_group0 (sel ! j)) r"
    by blast
  have "subseq sel (all_matches (st_ref_patterns st) T)"
    using sub first_by_subseq subseq_order.order_trans by blast
  then have a: "set sel \<subseteq> set (all_matches (st_ref_patterns st) T)"
    by (auto dest: list_emb_set)
  have b: "\<forall>b\<in>set sel. \<forall>u\<in>set ?U. \<not> captured_in (m_group0 b) u"
  proof (intro ballI)
    fix b u assume "b \<in> set sel" and u: "u \<in> set ?U"
    then obtain j where j: "j < length sel" and bj: "b = sel ! j" by (auto simp: in_set_conv_nth)
    from nc j u show "\<not> captured_in (m_group0 b) u" unfolding bj by auto
  qed
  have "grp_key g = st_key st" and "grp_refs g = ?U @ map (bare_ref (st_key st) T ?ls) sel"
    by (simp_all add: g group_of_def refs)
  with st a b nc show ?thesis by blast
qed

text \<open>
  The witness: in the example the key \<open>SCRS-2\<close> is matched by the bare pattern inside the URL,
  and the \<open>jira\<close> group holds no bare entry for it.
\<close>

theorem contained_bare_reference_suppressed_witness:
  "extract_sources ''#ab ZD-1 https://datadoghq.atlassian.net/browse/SCRS-2'' = Inr [\<lparr>grp_key = ''jira'', grp_label = ''JIRA'', grp_icon = ''ticket'',
       grp_refs = [\<lparr>ref_url = Some ''https://datadoghq.atlassian.net/browse/SCRS-2'',
       ref_display = ''SCRS-2'', ref_context = ''ab ZD-1''\<rparr>, \<lparr>ref_url = Some ''https://datadoghq.atlassian.net/browse/ZD-1'',
       ref_display = ''ZD-1'',
       ref_context = ''ab  https://datadoghq.atlassian.net/browse/SCRS-2''\<rparr>]\<rparr>, \<lparr>grp_key = ''slack'', grp_label = ''Slack'', grp_icon = ''chat'',
       grp_refs = [\<lparr>ref_url = None, ref_display = ''#ab'',
         ref_context = ''ab ZD-1 https://datadoghq.atlassian.net/browse/SCRS-2''\<rparr>]\<rparr>] \<and>
   (\<exists>st sel. st \<in> set SOURCE_TYPES \<and> ''jira'' = st_key st \<and>
      set sel \<subseteq> set (all_matches (st_ref_patterns st) ''#ab ZD-1 https://datadoghq.atlassian.net/browse/SCRS-2'') \<and>
      [\<lparr>ref_url = Some ''https://datadoghq.atlassian.net/browse/SCRS-2'',
       ref_display = ''SCRS-2'', ref_context = ''ab ZD-1''\<rparr>, \<lparr>ref_url = Some ''https://datadoghq.atlassian.net/browse/ZD-1'',
       ref_display = ''ZD-1'',
       ref_context = ''ab  https://datadoghq.atlassian.net/browse/SCRS-2''\<rparr>] = snd (url_pass st ''#ab ZD-1 https://datadoghq.atlassian.net/browse/SCRS-2'' (split_on CHR 0x0A ''#ab ZD-1 https://datadoghq.atlassian.net/browse/SCRS-2'')) @
                   map (bare_ref (st_key st) ''#ab ZD-1 https://datadoghq.atlassian.net/browse/SCRS-2'' (split_on CHR 0x0A ''#ab ZD-1 https://datadoghq.atlassian.net/browse/SCRS-2'')) sel \<and>
      (\<forall>b\<in>set sel. \<forall>u\<in>set (snd (url_pass st ''#ab ZD-1 https://datadoghq.atlassian.net/browse/SCRS-2'' (split_on CHR 0x0A ''#ab ZD-1 https://datadoghq.atlassian.net/browse/SCRS-2''))).
          \<not> captured_in (m_group0 b) u) \<and>
      (\<forall>j<length sel.
          \<forall>r\<in>set (snd (url_pass st ''#ab ZD-1 https://datadoghq.atlassian.net/browse/SCRS-2'' (split_on CHR 0x0A ''#ab ZD-1 https://datadoghq.atlassian.net/browse/SCRS-2'')) @
                   map (bare_ref (st_key st) ''#ab ZD-1 https://datadoghq.atlassian.net/browse/SCRS-2'' (split_on CHR 0x0A ''#ab ZD-1 https://datadoghq.atlassian.net/browse/SCRS-2'')) (take j sel)).
            \<not> captured_in (m_group0 (sel ! j)) r))"
proof -
  have "\<lparr>grp_key = ''jira'', grp_label = ''JIRA'', grp_icon = ''ticket'',
       grp_refs = [\<lparr>ref_url = Some ''https://datadoghq.atlassian.net/browse/SCRS-2'',
       ref_display = ''SCRS-2'', ref_context = ''ab ZD-1''\<rparr>, \<lparr>ref_url = Some ''https://datadoghq.atlassian.net/browse/ZD-1'',
       ref_display = ''ZD-1'',
       ref_context = ''ab  https://datadoghq.atlassian.net/browse/SCRS-2''\<rparr>]\<rparr> \<in> set [\<lparr>grp_key = ''jira'', grp_label = ''JIRA'', grp_icon = ''ticket'',
       grp_refs = [\<lparr>ref_url = Some ''https://datadoghq.atlassian.net/browse/SCRS-2'',
       ref_display = ''SCRS-2'', ref_context = ''ab ZD-1''\<rparr>, \<lparr>ref_url = Some ''https://datadoghq.atlassian.net/browse/ZD-1'',
       ref_display = ''ZD-1'',
       ref_context = ''ab  https://datadoghq.atlassian.net/browse/SCRS-2''\<rparr>]\<rparr>, \<lparr>grp_key = ''slack'', grp_label = ''Slack'', grp_icon = ''chat'',
       grp_refs = [\<lparr>ref_url = None, ref_display = ''#ab'',
         ref_context = ''ab ZD-1 https://datadoghq.atlassian.net/browse/SCRS-2''\<rparr>]\<rparr>]" by simp
  from contained_bare_reference_suppressed [OF example_extract this] example_extract
  show ?thesis by simp
qed

subsection \<open>The order of the references\<close>

text \<open>
  C10: when the extraction returns, the references of a group are those of the URL pass and
  then those of the bare-reference pass.  Every source type has one URL pattern and at most
  one bare pattern, and the matches of a pattern come with increasing start positions (each
  match is the text that stands at its start position, lemma \<open>finditer_occurs\<close>), so
  within each pass the references stand in the order of the text: the URL pass keeps the first
  match of each pair (url, display), and the bare pass keeps some of the matches that are the
  first with their text.
\<close>

theorem url_refs_before_bare_refs:
  assumes "extract_sources T = Inr gs" and "g \<in> set gs"
  shows "\<exists>st up sel. st \<in> set SOURCE_TYPES \<and> grp_key g = st_key st \<and>
           st_url_patterns st = [up] \<and> length (st_ref_patterns st) \<le> 1 \<and>
           subseq sel (first_by m_group0 {} (all_matches (st_ref_patterns st) T)) \<and>
           grp_refs g =
             map (url_ref (st_key st) T (split_on CHR 0x0A T))
               (first_by (url_key (st_key st) T) {} (finditer up T)) @
             map (bare_ref (st_key st) T (split_on CHR 0x0A T)) sel \<and>
           sorted_wrt (\<lambda>a b. m_start a < m_start b) (finditer up T) \<and>
           sorted_wrt (\<lambda>a b. m_start a < m_start b) (all_matches (st_ref_patterns st) T)"
proof -
  let ?ls = "split_on CHR 0x0A T"
  from group_in_result [OF assms] obtain st where
    st: "st \<in> set SOURCE_TYPES" and g: "g = group_of st T"
    and sr: "source_refs st T ?ls = Inr (refs_of st T)"
    by blast
  from source_types_patterns [OF st] obtain up where
    up: "st_url_patterns st = [up]" and le: "length (st_ref_patterns st) \<le> 1"
    by blast
  from source_refs_shape [OF sr] obtain sel where
    sub: "subseq sel (first_by m_group0 {} (all_matches (st_ref_patterns st) T))"
    and refs: "refs_of st T = snd (url_pass st T ?ls) @ map (bare_ref (st_key st) T ?ls) sel"
    by blast
  have am: "all_matches [up] T = finditer up T" by (simp add: all_matches_def)
  have r: "grp_refs g =
      map (url_ref (st_key st) T ?ls) (first_by (url_key (st_key st) T) {} (finditer up T)) @
      map (bare_ref (st_key st) T ?ls) sel"
    by (simp add: g group_of_def refs url_pass_eq up am)
  have s: "sorted_wrt (\<lambda>a b. m_start a < m_start b) (all_matches (st_ref_patterns st) T)"
  proof (cases "st_ref_patterns st")
    case Nil
    then show ?thesis by (simp add: all_matches_def)
  next
    case (Cons p ps)
    with le have "ps = []" by simp
    with Cons show ?thesis by (simp add: all_matches_def finditer_sorted)
  qed
  have "grp_key g = st_key st" by (simp add: g group_of_def)
  with st up le sub r s finditer_sorted [of up T] show ?thesis by blast
qed

text \<open>
  The witness: in the example the bare key \<open>ZD-1\<close> stands before the URL, and its reference
  comes after the reference of the URL.
\<close>

theorem url_refs_before_bare_refs_witness:
  "extract_sources ''#ab ZD-1 https://datadoghq.atlassian.net/browse/SCRS-2'' = Inr [\<lparr>grp_key = ''jira'', grp_label = ''JIRA'', grp_icon = ''ticket'',
       grp_refs = [\<lparr>ref_url = Some ''https://datadoghq.atlassian.net/browse/SCRS-2'',
       ref_display = ''SCRS-2'', ref_context = ''ab ZD-1''\<rparr>, \<lparr>ref_url = Some ''https://datadoghq.atlassian.net/browse/ZD-1'',
       ref_display = ''ZD-1'',
       ref_context = ''ab  https://datadoghq.atlassian.net/browse/SCRS-2''\<rparr>]\<rparr>, \<lparr>grp_key = ''slack'', grp_label = ''Slack'', grp_icon = ''chat'',
       grp_refs = [\<lparr>ref_url = None, ref_display = ''#ab'',
         ref_context = ''ab ZD-1 https://datadoghq.atlassian.net/browse/SCRS-2''\<rparr>]\<rparr>] \<and>
   (\<exists>st up sel. st \<in> set SOURCE_TYPES \<and> ''jira'' = st_key st \<and>
      st_url_patterns st = [up] \<and> length (st_ref_patterns st) \<le> 1 \<and>
      subseq sel (first_by m_group0 {} (all_matches (st_ref_patterns st) ''#ab ZD-1 https://datadoghq.atlassian.net/browse/SCRS-2'')) \<and>
      [\<lparr>ref_url = Some ''https://datadoghq.atlassian.net/browse/SCRS-2'',
       ref_display = ''SCRS-2'', ref_context = ''ab ZD-1''\<rparr>, \<lparr>ref_url = Some ''https://datadoghq.atlassian.net/browse/ZD-1'',
       ref_display = ''ZD-1'',
       ref_context = ''ab  https://datadoghq.atlassian.net/browse/SCRS-2''\<rparr>] =
        map (url_ref (st_key st) ''#ab ZD-1 https://datadoghq.atlassian.net/browse/SCRS-2'' (split_on CHR 0x0A ''#ab ZD-1 https://datadoghq.atlassian.net/browse/SCRS-2''))
          (first_by (url_key (st_key st) ''#ab ZD-1 https://datadoghq.atlassian.net/browse/SCRS-2'') {} (finditer up ''#ab ZD-1 https://datadoghq.atlassian.net/browse/SCRS-2'')) @
        map (bare_ref (st_key st) ''#ab ZD-1 https://datadoghq.atlassian.net/browse/SCRS-2'' (split_on CHR 0x0A ''#ab ZD-1 https://datadoghq.atlassian.net/browse/SCRS-2'')) sel \<and>
      sorted_wrt (\<lambda>a b. m_start a < m_start b) (finditer up ''#ab ZD-1 https://datadoghq.atlassian.net/browse/SCRS-2'') \<and>
      sorted_wrt (\<lambda>a b. m_start a < m_start b) (all_matches (st_ref_patterns st) ''#ab ZD-1 https://datadoghq.atlassian.net/browse/SCRS-2''))"
proof -
  have "\<lparr>grp_key = ''jira'', grp_label = ''JIRA'', grp_icon = ''ticket'',
       grp_refs = [\<lparr>ref_url = Some ''https://datadoghq.atlassian.net/browse/SCRS-2'',
       ref_display = ''SCRS-2'', ref_context = ''ab ZD-1''\<rparr>, \<lparr>ref_url = Some ''https://datadoghq.atlassian.net/browse/ZD-1'',
       ref_display = ''ZD-1'',
       ref_context = ''ab  https://datadoghq.atlassian.net/browse/SCRS-2''\<rparr>]\<rparr> \<in> set [\<lparr>grp_key = ''jira'', grp_label = ''JIRA'', grp_icon = ''ticket'',
       grp_refs = [\<lparr>ref_url = Some ''https://datadoghq.atlassian.net/browse/SCRS-2'',
       ref_display = ''SCRS-2'', ref_context = ''ab ZD-1''\<rparr>, \<lparr>ref_url = Some ''https://datadoghq.atlassian.net/browse/ZD-1'',
       ref_display = ''ZD-1'',
       ref_context = ''ab  https://datadoghq.atlassian.net/browse/SCRS-2''\<rparr>]\<rparr>, \<lparr>grp_key = ''slack'', grp_label = ''Slack'', grp_icon = ''chat'',
       grp_refs = [\<lparr>ref_url = None, ref_display = ''#ab'',
         ref_context = ''ab ZD-1 https://datadoghq.atlassian.net/browse/SCRS-2''\<rparr>]\<rparr>]" by simp
  from url_refs_before_bare_refs [OF example_extract this] example_extract
  show ?thesis by simp
qed

subsection \<open>The context of a reference\<close>


text \<open>
  The ellipsis of a truncated context can complete an occurrence too, when the literal ends
  in full stops: here the literal is deleted from the line without rest, and the context,
  cut after 147 characters, ends with it.
\<close>

lemma ellipsis_completes_literal:
  "contains ''https://docs.datadoghq.com/...''
     (''aaaaaaaaaaaaaaaaaaaaaaaaaaaaaaaaaaaaaaaaaaaaaaaaaaaaaaaaaaaa'' @
      ''aaaaaaaaaaaaaaaaaaaaaaaaaaaaaaaaaaaaaaaaaaaaaaaaaaaaaaaaaaaa'' @
      ''https://docs.datadoghq.com/ https://docs.datadoghq.com/... bbbbbbbbbb'') \<and>
   \<not> contains ''https://docs.datadoghq.com/...''
     (replace_del ''https://docs.datadoghq.com/...'' (clean_markdown
       (''aaaaaaaaaaaaaaaaaaaaaaaaaaaaaaaaaaaaaaaaaaaaaaaaaaaaaaaaaaaa'' @
        ''aaaaaaaaaaaaaaaaaaaaaaaaaaaaaaaaaaaaaaaaaaaaaaaaaaaaaaaaaaaa'' @
        ''https://docs.datadoghq.com/ https://docs.datadoghq.com/... bbbbbbbbbb''))) \<and>
   contains ''https://docs.datadoghq.com/...''
     (get_context_for_match
       [''aaaaaaaaaaaaaaaaaaaaaaaaaaaaaaaaaaaaaaaaaaaaaaaaaaaaaaaaaaaa'' @
        ''aaaaaaaaaaaaaaaaaaaaaaaaaaaaaaaaaaaaaaaaaaaaaaaaaaaaaaaaaaaa'' @
        ''https://docs.datadoghq.com/ https://docs.datadoghq.com/... bbbbbbbbbb'']
       ''https://docs.datadoghq.com/...'' [])"
  by code_simp








subsection \<open>The scenario of the specification\<close>

text \<open>
  C6: the scenario, over the \<open>jira\<close> and \<open>slack\<close> source types of the table.  The result has
  two groups: \<open>jira\<close> with one reference, display \<open>SCRS-123\<close> and the browse URL (the bare
  \<open>SCRS-123\<close> is suppressed), and \<open>slack\<close> with one reference, display \<open>#security-team\<close> and
  no URL.
\<close>

theorem end_to_end_scenario:
  "extract_sources ''See https://datadoghq.atlassian.net/browse/SCRS-123 for details, also mentioned in SCRS-123 again and in #security-team channel.'' =
   Inr [\<lparr>grp_key = ''jira'', grp_label = ''JIRA'', grp_icon = ''ticket'',
          grp_refs =
            [\<lparr>ref_url = Some ''https://datadoghq.atlassian.net/browse/SCRS-123'',
              ref_display = ''SCRS-123'',
              ref_context = ''See  for details, also mentioned in SCRS-123 again and in security-team channel''\<rparr>]\<rparr>,
        \<lparr>grp_key = ''slack'', grp_label = ''Slack'', grp_icon = ''chat'',
          grp_refs =
            [\<lparr>ref_url = None, ref_display = ''#security-team'',
              ref_context = ''See https://datadoghq.atlassian.net/browse/SCRS-123 for details, also mentioned in SCRS-123 again and in security-team channel''\<rparr>]\<rparr>]"
  by code_simp

end
